theory Spec2Isabelle
  imports Complex_Main "HOL-Library.Log_Nat"
begin

section \<open>JavaScript numbers\<close>

text \<open>
  Every numeric value of \<^verbatim>\<open>src/App.jsx\<close> is a JavaScript Number, a binary64
  floating-point value.  The model keeps the four kinds of value that the program's
  arithmetic can tell apart: a finite value, written as the rational number that it
  denotes, the two infinities and NaN.  An arithmetic operation on finite values returns
  the exact result rounded to the nearest binary64 number, a tie going to the even
  significand, and an infinity when the rounded magnitude reaches \<open>2 ^ 1024\<close>.
  The sign of zero is not tracked: a zero is taken as \<open>+0\<close>.  The binary64 numbers are
  the finite values that rounding leaves unchanged; a statement about every finite value
  holds for them in particular.
\<close>

text \<open>The binary exponent of a number other than zero: the floor of its logarithm to base 2.\<close>

definition expo :: "rat \<Rightarrow> int" where
  "expo x =
     (if 1 \<le> \<bar>x\<bar> then bitlen \<lfloor>\<bar>x\<bar>\<rfloor> - 1
      else - int (ceillog2 (nat \<lceil>1 / \<bar>x\<bar>\<rceil>)))"

text \<open>The nearest integer, a tie going to the even one.\<close>

definition round_half_even :: "rat \<Rightarrow> int" where
  "round_half_even x =
     (let f = \<lfloor>x\<rfloor>; d = x - of_int f
      in if d < 1 / 2 then f else if 1 / 2 < d then f + 1 else if even f then f else f + 1)"

text \<open>The nearest multiple of \<open>2 powi e\<close>.\<close>

definition grid :: "int \<Rightarrow> rat \<Rightarrow> rat" where
  "grid e x = of_int (round_half_even (x / 2 powi e)) * 2 powi e"

text \<open>
  Rounding to a significand of 53 bits.  The spacing of the binary64 numbers around
  \<open>x\<close> is \<open>2 powi (expo x - 52)\<close>, and \<open>2 powi (- 1074)\<close> for the subnormal
  numbers, those below \<open>2 powi (- 1022)\<close>.
\<close>

definition raw_round :: "rat \<Rightarrow> rat" where
  "raw_round x = grid (max (expo x) (- 1022) - 52) x"

datatype jsnum = Fin rat | PInf | NInf | NaN

text \<open>The least magnitude that rounds to an infinity.\<close>

definition huge :: rat where
  "huge = 2 ^ 1024"

text \<open>The binary64 value of an exact result.\<close>

definition round64 :: "rat \<Rightarrow> jsnum" where
  "round64 x =
     (let y = raw_round x
      in if huge \<le> y then PInf else if y \<le> - huge then NInf else Fin y)"

instantiation jsnum :: plus
begin

fun plus_jsnum :: "jsnum \<Rightarrow> jsnum \<Rightarrow> jsnum" where
  "plus_jsnum (Fin a) (Fin b) = round64 (a + b)"
| "plus_jsnum (Fin a) PInf = PInf"
| "plus_jsnum (Fin a) NInf = NInf"
| "plus_jsnum PInf (Fin b) = PInf"
| "plus_jsnum PInf PInf = PInf"
| "plus_jsnum PInf NInf = NaN"
| "plus_jsnum NInf (Fin b) = NInf"
| "plus_jsnum NInf PInf = NaN"
| "plus_jsnum NInf NInf = NInf"
| "plus_jsnum NaN y = NaN"
| "plus_jsnum x NaN = NaN"

instance ..

end

instantiation jsnum :: times
begin

fun times_jsnum :: "jsnum \<Rightarrow> jsnum \<Rightarrow> jsnum" where
  "times_jsnum (Fin a) (Fin b) = round64 (a * b)"
| "times_jsnum (Fin a) PInf = (if a = 0 then NaN else if 0 < a then PInf else NInf)"
| "times_jsnum (Fin a) NInf = (if a = 0 then NaN else if 0 < a then NInf else PInf)"
| "times_jsnum PInf (Fin b) = (if b = 0 then NaN else if 0 < b then PInf else NInf)"
| "times_jsnum PInf PInf = PInf"
| "times_jsnum PInf NInf = NInf"
| "times_jsnum NInf (Fin b) = (if b = 0 then NaN else if 0 < b then NInf else PInf)"
| "times_jsnum NInf PInf = NInf"
| "times_jsnum NInf NInf = PInf"
| "times_jsnum NaN y = NaN"
| "times_jsnum x NaN = NaN"

instance ..

end

instantiation jsnum :: inverse
begin

fun divide_jsnum :: "jsnum \<Rightarrow> jsnum \<Rightarrow> jsnum" where
  "divide_jsnum (Fin a) (Fin b) =
     (if b = 0 then (if a = 0 then NaN else if 0 < a then PInf else NInf) else round64 (a / b))"
| "divide_jsnum (Fin a) PInf = Fin 0"
| "divide_jsnum (Fin a) NInf = Fin 0"
| "divide_jsnum PInf (Fin b) = (if 0 \<le> b then PInf else NInf)"
| "divide_jsnum PInf PInf = NaN"
| "divide_jsnum PInf NInf = NaN"
| "divide_jsnum NInf (Fin b) = (if 0 \<le> b then NInf else PInf)"
| "divide_jsnum NInf PInf = NaN"
| "divide_jsnum NInf NInf = NaN"
| "divide_jsnum NaN y = NaN"
| "divide_jsnum x NaN = NaN"

definition inverse_jsnum :: "jsnum \<Rightarrow> jsnum" where
  "inverse_jsnum x = divide (Fin 1) x"

instance ..

end

text \<open>
  The operator \<^verbatim>\<open>x ** n\<close> for a literal exponent \<open>n\<close>.  The program only takes
  \<^verbatim>\<open>x ** 2\<close>, which is the rounded square \<^verbatim>\<open>x * x\<close>.
\<close>

primrec jpow :: "jsnum \<Rightarrow> nat \<Rightarrow> jsnum" where
  "jpow x 0 = Fin 1"
| "jpow x (Suc n) = (if n = 0 then x else x * jpow x n)"

section \<open>The architecture record\<close>

text \<open>
  The value \<^verbatim>\<open>m\<close> that \<^verbatim>\<open>JSON.parse\<close> returns is read through nine properties.  A
  property that the object does not have reads as \<^verbatim>\<open>undefined\<close>, here \<open>None\<close>.  The
  fields carry the types that the interface gives them: numbers, a string for
  \<^verbatim>\<open>hidden_act\<close> and \<^verbatim>\<open>torch_dtype\<close>, a boolean for \<^verbatim>\<open>tie_word_embeddings\<close>.
\<close>

record arch =
  hidden_size :: "jsnum option"
  num_hidden_layers :: "jsnum option"
  intermediate_size :: "jsnum option"
  vocab_size :: "jsnum option"
  hidden_act :: "string option"
  tie_word_embeddings :: "bool option"
  num_attention_heads :: "jsnum option"
  num_key_value_heads :: "jsnum option"
  torch_dtype :: "string option"

text \<open>An arithmetic operator converts its operand to a number: \<^verbatim>\<open>undefined\<close> becomes NaN.\<close>

definition ToNumber :: "jsnum option \<Rightarrow> jsnum" where
  "ToNumber v = (case v of None \<Rightarrow> NaN | Some n \<Rightarrow> n)"

text \<open>The condition of \<^verbatim>\<open>c ? a : b\<close>: \<^verbatim>\<open>undefined\<close> and \<^verbatim>\<open>false\<close> are falsy.\<close>

definition truthy :: "bool option \<Rightarrow> bool" where
  "truthy v = (case v of None \<Rightarrow> False | Some b \<Rightarrow> b)"

text \<open>
  \<^verbatim>\<open>Array.prototype.includes\<close> on an array of strings: the searched value is found when
  it is a string equal to an element, character by character; \<^verbatim>\<open>undefined\<close> is never
  found.
\<close>

definition includes_str :: "string list \<Rightarrow> string option \<Rightarrow> bool" where
  "includes_str xs v = (case v of None \<Rightarrow> False | Some s \<Rightarrow> s \<in> set xs)"

section \<open>The core calculations\<close>

text \<open>
  Each of the two counters decides for itself whether the activation is gated: line 61 in
  \<^verbatim>\<open>calculateModelParameters\<close>, line 73 in \<^verbatim>\<open>calculateOperations\<close>.
\<close>

definition isGated_parameters :: "arch \<Rightarrow> bool" where
  "isGated_parameters m = includes_str [''silu'', ''swiglu'', ''geglu''] (hidden_act m)"

definition isGated_operations :: "arch \<Rightarrow> bool" where
  "isGated_operations m = includes_str [''silu'', ''swiglu'', ''geglu''] (hidden_act m)"

text \<open>\<^verbatim>\<open>calculateModelParameters\<close>, lines 59 to 68.\<close>

definition calculateModelParameters :: "arch \<Rightarrow> jsnum" where
  "calculateModelParameters m =
     (let isGated = isGated_parameters m;
          embed = ToNumber (vocab_size m) * ToNumber (hidden_size m)
                    * (if truthy (tie_word_embeddings m) then Fin 1 else Fin 2);
          head_size = ToNumber (hidden_size m) / ToNumber (num_attention_heads m);
          attn = Fin 2 * jpow (ToNumber (hidden_size m)) 2
                   + Fin 2 * ToNumber (hidden_size m) * ToNumber (num_key_value_heads m) * head_size;
          ffn = (if isGated then Fin 3 else Fin 2) * ToNumber (hidden_size m)
                  * ToNumber (intermediate_size m);
          ln = Fin 4 * ToNumber (hidden_size m)
      in embed + ToNumber (num_hidden_layers m) * (attn + ffn + ln))"

text \<open>
  \<^verbatim>\<open>calculateOperations\<close>, lines 70 to 94.  Every call of the program passes \<^verbatim>\<open>seq\<close>
  and \<^verbatim>\<open>b\<close>, so the default values of the two parameters are never used.
\<close>

definition calculateOperations :: "arch \<Rightarrow> jsnum \<Rightarrow> jsnum \<Rightarrow> jsnum" where
  "calculateOperations m seq b =
     (let isGated = isGated_operations m;
          actCost = (if isGated then Fin 3 else Fin 1);
          kvScale = ToNumber (num_key_value_heads m) / ToNumber (num_attention_heads m);
          attention = Fin 2 * jpow (ToNumber (hidden_size m)) 2 * (Fin 2 + Fin 2 * kvScale)
                        + Fin 4 * ToNumber (hidden_size m) * seq;
          feed_forward = ToNumber (hidden_size m) * ToNumber (intermediate_size m)
                             * (if isGated then Fin 6 else Fin 4)
                           + ToNumber (intermediate_size m)
                               * (if isGated then actCost + Fin 1 else actCost);
          lm_head = Fin 2 * ToNumber (hidden_size m) * ToNumber (vocab_size m)
      in b * (ToNumber (num_hidden_layers m) * (attention + feed_forward) + lm_head))"

text \<open>
  The table lookup \<^verbatim>\<open>{ float32: 4, float16: 2, bfloat16: 2 }[m.torch_dtype]\<close>.  The key is
  the string of the tag (\<^verbatim>\<open>undefined\<close> becomes the key \<^verbatim>\<open>"undefined"\<close>).  The table is an
  object literal, so a key that is not one of its own three is looked up in
  \<^verbatim>\<open>Object.prototype\<close>, whose properties are functions (and, for \<^verbatim>\<open>__proto__\<close>, the
  prototype object itself).
\<close>

datatype looked_up = Own jsnum | Inherited | Missing

definition Object_prototype_keys :: "string list" where
  "Object_prototype_keys =
     [''constructor'', ''hasOwnProperty'', ''isPrototypeOf'', ''propertyIsEnumerable'',
      ''toLocaleString'', ''toString'', ''valueOf'', ''__proto__'',
      ''__defineGetter__'', ''__defineSetter__'', ''__lookupGetter__'', ''__lookupSetter__'']"

definition bytes_table :: "string option \<Rightarrow> looked_up" where
  "bytes_table k =
     (let key = (case k of None \<Rightarrow> ''undefined'' | Some s \<Rightarrow> s)
      in if key = ''float32'' then Own (Fin 4)
         else if key = ''float16'' then Own (Fin 2)
         else if key = ''bfloat16'' then Own (Fin 2)
         else if key \<in> set Object_prototype_keys then Inherited
         else Missing)"

text \<open>
  \<^verbatim>\<open>v ?? 4\<close> replaces only \<^verbatim>\<open>undefined\<close> (and \<^verbatim>\<open>null\<close>); an inherited function or
  object stays, and the multiplication converts it to NaN.
\<close>

definition bytes_or_default :: "looked_up \<Rightarrow> jsnum" where
  "bytes_or_default v = (case v of Own n \<Rightarrow> n | Inherited \<Rightarrow> NaN | Missing \<Rightarrow> Fin 4)"

text \<open>\<^verbatim>\<open>calculateMemoryReads\<close>, lines 97 to 101.\<close>

definition calculateMemoryReads :: "arch \<Rightarrow> jsnum \<Rightarrow> jsnum \<Rightarrow> jsnum" where
  "calculateMemoryReads m seq b =
     (let bytes = bytes_or_default (bytes_table (torch_dtype m));
          kv = b * seq * ToNumber (num_hidden_layers m) * ToNumber (hidden_size m) * Fin 2
      in (calculateModelParameters m + kv) * bytes)"

section \<open>Parsing and the throughput\<close>

text \<open>
  \<^verbatim>\<open>JSON.parse\<close> belongs to the language, not to the program: it is a parameter of the
  model.  It throws a \<^verbatim>\<open>SyntaxError\<close> or returns a value.  Reading a property of
  \<^verbatim>\<open>null\<close> throws a \<^verbatim>\<open>TypeError\<close>; a boolean, a number, a string or an array has
  none of the nine properties.
\<close>

datatype exn = SyntaxError | TypeError

datatype json = JNull | JPrimitive | JObject arch

definition no_fields :: arch where
  "no_fields =
     \<lparr>hidden_size = None, num_hidden_layers = None, intermediate_size = None,
      vocab_size = None, hidden_act = None, tie_word_embeddings = None,
      num_attention_heads = None, num_key_value_heads = None, torch_dtype = None\<rparr>"

definition properties :: "json \<Rightarrow> exn + arch" where
  "properties v =
     (case v of JNull \<Rightarrow> Inl TypeError | JPrimitive \<Rightarrow> Inr no_fields | JObject m \<Rightarrow> Inr m)"

text \<open>
  The \<^verbatim>\<open>try\<close> block of \<^verbatim>\<open>calculateThroughput\<close>, lines 105 to 109.  The first
  statement that reads \<^verbatim>\<open>m\<close> is the property access of \<^verbatim>\<open>calculateMemoryReads\<close>;
  from there on nothing throws, the arithmetic of numbers never does.  The
  \<^verbatim>\<open>console.log\<close> line repeats two pure calls and changes nothing.
\<close>

definition try_block ::
    "(string \<Rightarrow> exn + json) \<Rightarrow> string \<Rightarrow> jsnum \<Rightarrow> jsnum \<Rightarrow> jsnum \<Rightarrow> jsnum \<Rightarrow> exn + jsnum" where
  "try_block JSON_parse cfg mem flops b seq =
     (case JSON_parse cfg of
        Inl e \<Rightarrow> Inl e
      | Inr v \<Rightarrow>
          (case properties v of
             Inl e \<Rightarrow> Inl e
           | Inr m \<Rightarrow>
               (let memT = calculateMemoryReads m seq b / (mem * Fin (10 ^ 9));
                    compT = calculateOperations m seq b / (flops * Fin (10 ^ 12))
                in Inr (b / (memT + compT)))))"

text \<open>\<^verbatim>\<open>calculateThroughput\<close>, lines 103 to 113: the \<^verbatim>\<open>catch\<close> clause returns \<open>0\<close>.\<close>

definition calculateThroughput ::
    "(string \<Rightarrow> exn + json) \<Rightarrow> string \<Rightarrow> jsnum \<Rightarrow> jsnum \<Rightarrow> jsnum \<Rightarrow> jsnum \<Rightarrow> jsnum" where
  "calculateThroughput JSON_parse cfg mem flops b seq =
     (case try_block JSON_parse cfg mem flops b seq of Inl e \<Rightarrow> Fin 0 | Inr t \<Rightarrow> t)"

section \<open>The curve\<close>

record curve =
  curve_x :: "int list"
  curve_y :: "jsnum list"

record throughputData =
  total_curve :: curve
  perUser_curve :: curve

text \<open>\<^verbatim>\<open>Math.max(1, Math.floor(ms / 800))\<close>, line 123.\<close>

definition step_of :: "rat \<Rightarrow> int" where
  "step_of ms = max 1 \<lfloor>ms / 800\<rfloor>"

text \<open>
  The loop of lines 125 to 128: \<open>t s\<close> is \<^verbatim>\<open>calculateThroughput(dCfg, mem, fl, bs, s)\<close>,
  the three arrays grow by one element in each round.  \<^verbatim>\<open>maxSeqLen\<close> is a finite number
  (every setter clamps it), so that the loop ends.
\<close>

function curve_loop ::
    "(int \<Rightarrow> jsnum) \<Rightarrow> jsnum \<Rightarrow> rat \<Rightarrow> int \<Rightarrow> int list \<times> jsnum list \<times> jsnum list
       \<Rightarrow> int list \<times> jsnum list \<times> jsnum list" where
  "curve_loop t bs ms s (xs, ty, py) =
     (if of_int s \<le> ms
      then curve_loop t bs ms (s + step_of ms) (xs @ [s], ty @ [t s], py @ [t s / bs])
      else (xs, ty, py))"
  by pat_completeness auto
termination
  by (relation "measure (\<lambda>(t, bs, ms, s, acc). nat (\<lfloor>ms\<rfloor> + 1 - s))")
     (auto simp: step_of_def le_floor_iff)

declare curve_loop.simps [simp del]

text \<open>
  The effect of lines 117 to 130, as a function from the state it reads to the new value of
  \<^verbatim>\<open>throughputData\<close>.  \<^verbatim>\<open>!dCfg\<close> holds for the empty string only.
\<close>

definition curve_effect ::
    "(string \<Rightarrow> exn + json) \<Rightarrow> string \<Rightarrow> jsnum \<Rightarrow> jsnum \<Rightarrow> jsnum \<Rightarrow> rat
       \<Rightarrow> throughputData \<Rightarrow> throughputData" where
  "curve_effect JSON_parse dCfg memoryBandwidth computePower batchSize maxSeqLen old =
     (if dCfg = [] then old
      else
        (case curve_loop
                (\<lambda>s. calculateThroughput JSON_parse dCfg memoryBandwidth computePower
                        batchSize (Fin (of_int s)))
                batchSize maxSeqLen 1 ([], [], []) of
           (xs, ty, py) \<Rightarrow>
             \<lparr>total_curve = \<lparr>curve_x = xs, curve_y = ty\<rparr>,
              perUser_curve = \<lparr>curve_x = xs, curve_y = py\<rparr>\<rparr>))"

text \<open>The initial value of \<^verbatim>\<open>throughputData\<close>, line 49.\<close>

definition initial_throughputData :: throughputData where
  "initial_throughputData =
     \<lparr>total_curve = \<lparr>curve_x = [], curve_y = []\<rparr>,
      perUser_curve = \<lparr>curve_x = [], curve_y = []\<rparr>\<rparr>"

section \<open>The formulas of the specification\<close>

text \<open>
  The operation count as the specification words it (section 4.3), to be compared with
  \<^const>\<open>calculateOperations\<close>: an activation is gated when it is one of three names.
\<close>

definition gated :: "arch \<Rightarrow> bool" where
  "gated m = (hidden_act m \<in> {Some ''silu'', Some ''swiglu'', Some ''geglu''})"

definition attention_ops :: "arch \<Rightarrow> jsnum \<Rightarrow> jsnum" where
  "attention_ops m seqLen =
     (let kvScale = ToNumber (num_key_value_heads m) / ToNumber (num_attention_heads m)
      in Fin 2 * jpow (ToNumber (hidden_size m)) 2 * (Fin 2 + Fin 2 * kvScale)
           + Fin 4 * ToNumber (hidden_size m) * seqLen)"

definition feedforward_ops :: "arch \<Rightarrow> jsnum" where
  "feedforward_ops m =
     ToNumber (hidden_size m) * ToNumber (intermediate_size m) * (if gated m then Fin 6 else Fin 4)
       + ToNumber (intermediate_size m) * (if gated m then Fin 4 else Fin 1)"

definition lm_head_ops :: "arch \<Rightarrow> jsnum" where
  "lm_head_ops m = Fin 2 * ToNumber (hidden_size m) * ToNumber (vocab_size m)"

text \<open>
  The sampled sequence lengths as the specification words them (section 4.6): from \<open>1\<close>
  up to \<^verbatim>\<open>maxSeqLen\<close> in steps of \<^const>\<open>step_of\<close>.
\<close>

definition sample_count :: "rat \<Rightarrow> nat" where
  "sample_count ms = nat ((\<lfloor>ms\<rfloor> - 1) div step_of ms + 1)"

definition sample_points :: "rat \<Rightarrow> int list" where
  "sample_points ms = map (\<lambda>k. 1 + int k * step_of ms) [0..<sample_count ms]"

text \<open>A field that holds a positive finite number.\<close>

definition positive :: "jsnum option \<Rightarrow> bool" where
  "positive v = (case v of Some (Fin r) \<Rightarrow> 0 < r | _ \<Rightarrow> False)"

text \<open>
  The valid architecture record of the specification (section 3): the six numeric fields
  are positive integers, the key/value heads are at most the attention heads, and the
  head count divides the hidden size.  Every precision tag is accepted, an absent or
  unrecognised one standing for \<^verbatim>\<open>float32\<close>.
\<close>

definition integral :: "jsnum option \<Rightarrow> bool" where
  "integral v = (case v of Some (Fin r) \<Rightarrow> of_int \<lfloor>r\<rfloor> = r | _ \<Rightarrow> False)"

definition value_of :: "jsnum option \<Rightarrow> rat" where
  "value_of v = (case v of Some (Fin r) \<Rightarrow> r | _ \<Rightarrow> 0)"

definition valid_arch :: "arch \<Rightarrow> bool" where
  "valid_arch m =
     (positive (hidden_size m) \<and> integral (hidden_size m)
      \<and> positive (num_hidden_layers m) \<and> integral (num_hidden_layers m)
      \<and> positive (intermediate_size m) \<and> integral (intermediate_size m)
      \<and> positive (vocab_size m) \<and> integral (vocab_size m)
      \<and> positive (num_attention_heads m) \<and> integral (num_attention_heads m)
      \<and> positive (num_key_value_heads m) \<and> integral (num_key_value_heads m)
      \<and> value_of (num_key_value_heads m) \<le> value_of (num_attention_heads m)
      \<and> integral (Some (Fin (value_of (hidden_size m) / value_of (num_attention_heads m)))))"

text \<open>
  The comparisons that the sixth claim needs, as JavaScript makes them: NaN compares false
  with everything.
\<close>

fun jle :: "jsnum \<Rightarrow> jsnum \<Rightarrow> bool" where
  "jle NaN y = False"
| "jle x NaN = False"
| "jle NInf y = True"
| "jle x PInf = True"
| "jle (Fin a) (Fin b) = (a \<le> b)"
| "jle PInf y = False"
| "jle x NInf = False"

definition positive_finite :: "jsnum \<Rightarrow> bool" where
  "positive_finite x = (case x of Fin r \<Rightarrow> 0 < r | _ \<Rightarrow> False)"

definition nonneg_finite :: "jsnum \<Rightarrow> bool" where
  "nonneg_finite x = (case x of Fin r \<Rightarrow> 0 \<le> r | _ \<Rightarrow> False)"

text \<open>A field that holds a finite number of at least 1.\<close>

definition at_least_one :: "jsnum option \<Rightarrow> bool" where
  "at_least_one v = (case v of Some (Fin r) \<Rightarrow> 1 \<le> r | _ \<Rightarrow> False)"

text \<open>
  The sum of the two phase times, \<^verbatim>\<open>memT + compT\<close> of lines 106 to 109, for a parsed
  record.
\<close>

definition phase_time_sum :: "arch \<Rightarrow> jsnum \<Rightarrow> jsnum \<Rightarrow> jsnum \<Rightarrow> jsnum \<Rightarrow> jsnum" where
  "phase_time_sum m mem flops b seq =
     calculateMemoryReads m seq b / (mem * Fin (10 ^ 9))
       + calculateOperations m seq b / (flops * Fin (10 ^ 12))"

section \<open>Example inputs\<close>

text \<open>The record of the first testable property: the shape of GPT-2 small.\<close>

definition gpt2_small :: arch where
  "gpt2_small =
     \<lparr>hidden_size = Some (Fin 768), num_hidden_layers = Some (Fin 12),
      intermediate_size = Some (Fin 3072), vocab_size = Some (Fin 50257),
      hidden_act = Some ''gelu_new'', tie_word_embeddings = Some True,
      num_attention_heads = Some (Fin 12), num_key_value_heads = Some (Fin 12),
      torch_dtype = None\<rparr>"

text \<open>A record of integers whose head count does not divide the hidden size.\<close>

definition uneven_heads :: arch where
  "uneven_heads =
     \<lparr>hidden_size = Some (Fin 10), num_hidden_layers = Some (Fin 1),
      intermediate_size = Some (Fin 1), vocab_size = Some (Fin 1),
      hidden_act = None, tie_word_embeddings = None,
      num_attention_heads = Some (Fin 3), num_key_value_heads = Some (Fin 1),
      torch_dtype = None\<rparr>"

text \<open>
  A record of positive integers whose parameter count lies above \<open>2 ^ 53\<close>: the hidden
  size and the vocabulary size are \<open>2 ^ 27 + 1\<close>.
\<close>

definition wide_embedding :: arch where
  "wide_embedding =
     \<lparr>hidden_size = Some (Fin 134217729), num_hidden_layers = Some (Fin 1),
      intermediate_size = Some (Fin 1), vocab_size = Some (Fin 134217729),
      hidden_act = None, tie_word_embeddings = Some True,
      num_attention_heads = Some (Fin 1), num_key_value_heads = Some (Fin 1),
      torch_dtype = None\<rparr>"

text \<open>
  A valid record whose hidden size is \<open>2 ^ 600\<close>, with 16 heads: the square of the
  hidden size is beyond the range of the finite numbers.
\<close>

definition huge_hidden :: arch where
  "huge_hidden =
     \<lparr>hidden_size = Some (Fin (2 ^ 600)), num_hidden_layers = Some (Fin 12),
      intermediate_size = Some (Fin 3072), vocab_size = Some (Fin 50257),
      hidden_act = Some ''gelu_new'', tie_word_embeddings = Some True,
      num_attention_heads = Some (Fin 16), num_key_value_heads = Some (Fin 16),
      torch_dtype = None\<rparr>"

text \<open>
  What \<^verbatim>\<open>JSON.parse\<close> does on eight texts: the configuration of \<^const>\<open>gpt2_small\<close>,
  the same without its head count, the same with a head count of zero, the same with the
  precision tag \<^verbatim>\<open>"constructor"\<close>, the configuration of \<^const>\<open>huge_hidden\<close>, whose
  hidden size is \<open>2 ^ 600\<close> written in decimal digits, the empty object, \<^verbatim>\<open>null\<close>, and
  a text cut off after its first character.
\<close>

definition gpt2_config :: string where
  \<open>gpt2_config = ''{"hidden_size":768,"num_hidden_layers":12,"intermediate_size":3072,"vocab_size":50257,"hidden_act":"gelu_new","tie_word_embeddings":true,"num_attention_heads":12,"num_key_value_heads":12}''\<close>

definition headless_config :: string where
  \<open>headless_config = ''{"hidden_size":768,"num_hidden_layers":12,"intermediate_size":3072,"vocab_size":50257,"hidden_act":"gelu_new","tie_word_embeddings":true,"num_key_value_heads":12}''\<close>

definition zero_heads_config :: string where
  \<open>zero_heads_config = ''{"hidden_size":768,"num_hidden_layers":12,"intermediate_size":3072,"vocab_size":50257,"hidden_act":"gelu_new","tie_word_embeddings":true,"num_attention_heads":0,"num_key_value_heads":12}''\<close>

definition inherited_tag_config :: string where
  \<open>inherited_tag_config = ''{"hidden_size":768,"num_hidden_layers":12,"intermediate_size":3072,"vocab_size":50257,"hidden_act":"gelu_new","tie_word_embeddings":true,"num_attention_heads":12,"num_key_value_heads":12,"torch_dtype":"constructor"}''\<close>

definition huge_hidden_config :: string where
  \<open>huge_hidden_config = ''{"hidden_size":4149515568880992958512407863691161151012446232242436899995657329690652811412908146399707048947103794288197886611300789182395151075411775307886874834113963687061181803401509523685376,"num_hidden_layers":12,"intermediate_size":3072,"vocab_size":50257,"hidden_act":"gelu_new","tie_word_embeddings":true,"num_attention_heads":16,"num_key_value_heads":16}''\<close>

definition example_parse :: "string \<Rightarrow> exn + json" where
  "example_parse text =
     (if text = gpt2_config then Inr (JObject gpt2_small)
      else if text = headless_config then Inr (JObject (gpt2_small\<lparr>num_attention_heads := None\<rparr>))
      else if text = zero_heads_config
        then Inr (JObject (gpt2_small\<lparr>num_attention_heads := Some (Fin 0)\<rparr>))
      else if text = inherited_tag_config
        then Inr (JObject (gpt2_small\<lparr>torch_dtype := Some ''constructor''\<rparr>))
      else if text = huge_hidden_config then Inr (JObject huge_hidden)
      else if text = ''{}'' then Inr (JObject no_fields)
      else if text = ''null'' then Inr JNull
      else Inl SyntaxError)"

section \<open>The debounced configuration text\<close>

text \<open>
  The component keeps six state variables (lines 44 to 49); \<^verbatim>\<open>useDebounce\<close> adds the
  state \<^verbatim>\<open>debounced\<close> (line 32), read by the component as \<^verbatim>\<open>dCfg\<close>, and a timer.
  The model follows the hooks through two kinds of event, an edit of the configuration
  text and the passage of time in milliseconds, with the rules of the framework:
  an effect runs again when one of its dependencies has changed, after the cleanup of its
  previous run, and setting a state variable to the value it has changes nothing.
  \<^verbatim>\<open>timers\<close> are the pending timeouts (identifier, milliseconds left, the value that the
  callback will set), \<^verbatim>\<open>effect_id\<close> is the identifier that the cleanup of line 35 will
  clear, and \<^verbatim>\<open>effect_runs\<close> records, oldest first, the values of \<^verbatim>\<open>dCfg\<close> with which
  the effect of lines 117 to 130 has run.
\<close>

text \<open>The delay that line 116 passes to \<^verbatim>\<open>useDebounce\<close>.\<close>

definition delay_ms :: nat where
  "delay_ms = 200"

record app =
  config :: string
  memoryBandwidth :: jsnum
  computePower :: jsnum
  batchSize :: jsnum
  maxSeqLen :: rat
  throughputData :: throughputData
  debounced :: string
  timers :: "(nat \<times> nat \<times> string) list"
  next_id :: nat
  effect_id :: "nat option"
  effect_runs :: "string list"

text \<open>
  The callback of the timeout, \<^verbatim>\<open>setDebounced(value)\<close>.  When the value differs from
  the state, the component renders again with a new \<^verbatim>\<open>dCfg\<close> and the effect of lines 117
  to 130 runs; the dependencies of the effect of \<^verbatim>\<open>useDebounce\<close> are unchanged.
\<close>

definition setDebounced :: "(string \<Rightarrow> exn + json) \<Rightarrow> string \<Rightarrow> app \<Rightarrow> app" where
  "setDebounced JSON_parse v st =
     (if v = debounced st then st
      else st\<lparr>debounced := v,
              effect_runs := effect_runs st @ [v],
              throughputData :=
                curve_effect JSON_parse v (memoryBandwidth st) (computePower st) (batchSize st)
                  (maxSeqLen st) (throughputData st)\<rparr>)"

text \<open>
  \<^verbatim>\<open>setConfig(e.target.value)\<close>, line 166.  With a new text the component renders again,
  \<^verbatim>\<open>value\<close> has changed, and the effect of lines 33 to 36 runs again: first the cleanup
  \<^verbatim>\<open>clearTimeout(id)\<close> of its previous run, then \<^verbatim>\<open>setTimeout\<close>.
\<close>

definition setConfig :: "string \<Rightarrow> app \<Rightarrow> app" where
  "setConfig v st =
     (if v = config st then st
      else st\<lparr>config := v,
              timers := filter (\<lambda>(i, left, w). Some i \<noteq> effect_id st) (timers st)
                          @ [(next_id st, delay_ms, v)],
              effect_id := Some (next_id st),
              next_id := Suc (next_id st)\<rparr>)"

text \<open>
  One millisecond passes: a timeout whose time is up is removed and its callback runs.
\<close>

definition tick :: "(string \<Rightarrow> exn + json) \<Rightarrow> app \<Rightarrow> app" where
  "tick JSON_parse st =
     (let ts = map (\<lambda>(i, left, v). (i, left - 1, v)) (timers st);
          due = filter (\<lambda>(i, left, v). left = 0) ts;
          rest = filter (\<lambda>(i, left, v). left \<noteq> 0) ts
      in foldl (\<lambda>s (i, left, v). setDebounced JSON_parse v s) (st\<lparr>timers := rest\<rparr>) due)"

datatype event = Edit string | Elapse nat

fun step :: "(string \<Rightarrow> exn + json) \<Rightarrow> app \<Rightarrow> event \<Rightarrow> app" where
  "step JSON_parse st (Edit v) = setConfig v st"
| "step JSON_parse st (Elapse d) = (tick JSON_parse ^^ d) st"

definition run :: "(string \<Rightarrow> exn + json) \<Rightarrow> app \<Rightarrow> event list \<Rightarrow> app" where
  "run JSON_parse st evs = foldl (step JSON_parse) st evs"

text \<open>
  The state after the first render: the initial values of lines 44 to 49, the timeout
  that the first run of the effect of \<^verbatim>\<open>useDebounce\<close> has set, and the first run of the
  curve effect, which returns at line 118 for the empty text.
\<close>

definition mounted :: app where
  "mounted =
     \<lparr>config = [], memoryBandwidth = Fin 1792, computePower = Fin 209, batchSize = Fin 1,
      maxSeqLen = 1024, throughputData = initial_throughputData, debounced = [],
      timers = [(0, delay_ms, [])], next_id = 1, effect_id = Some 0, effect_runs = [[]]\<rparr>"

text \<open>At most one timeout is pending, and it is the one that the next cleanup clears.\<close>

definition one_pending :: "app \<Rightarrow> bool" where
  "one_pending st =
     (case timers st of
        [] \<Rightarrow> True
      | [(i, left, v)] \<Rightarrow> effect_id st = Some i \<and> 0 < left
      | _ \<Rightarrow> False)"

text \<open>
  A burst of edits: each further edit comes with the time that has passed since the edit
  before it.  Every edit changes the text, and in a rapid burst every gap is shorter than
  the delay.
\<close>

fun burst :: "(nat \<times> string) list \<Rightarrow> event list" where
  "burst [] = []"
| "burst ((d, v) # es) = Elapse d # Edit v # burst es"

fun changes :: "string \<Rightarrow> (nat \<times> string) list \<Rightarrow> bool" where
  "changes c [] = True"
| "changes c ((d, v) # es) = (v \<noteq> c \<and> changes v es)"

definition rapid :: "(nat \<times> string) list \<Rightarrow> bool" where
  "rapid es = list_all (\<lambda>(d, v). d < delay_ms) es"

text \<open>
  The state some time after the configuration of \<^const>\<open>gpt2_small\<close> has been pasted into
  the text field.
\<close>

definition settled :: app where
  "settled =
     \<lparr>config = gpt2_config, memoryBandwidth = Fin 1792, computePower = Fin 209, batchSize = Fin 1,
      maxSeqLen = 1024,
      throughputData =
        curve_effect example_parse gpt2_config (Fin 1792) (Fin 209) (Fin 1) 1024
          initial_throughputData,
      debounced = gpt2_config, timers = [], next_id = 2, effect_id = Some 1,
      effect_runs = [[], gpt2_config]\<rparr>"

section \<open>Arithmetic of the number model\<close>

text \<open>The threshold as a numeral, for evaluation.\<close>

lemma huge_numeral [code]:
  "huge = 179769313486231590772930519078902473361797697894230657273430081157732675805500963132708477322407536021120113879871393357658789768814416622492847430639474124377767893424865485276302219601246094119453082952085005768838150682342462881473913110540827237163350510684586298239947245938479716304835356329624224137216"
  by (simp add: huge_def)

lemma expo_bounds_ge1:
  assumes "1 \<le> (a::rat)"
  shows "2 powi (bitlen \<lfloor>a\<rfloor> - 1) \<le> a \<and> a < 2 powi (bitlen \<lfloor>a\<rfloor> - 1 + 1)"
proof -
  let ?n = "\<lfloor>a\<rfloor>"
  have n: "0 < ?n" using assms by (simp add: less_floor_iff)
  from bitlen_bounds [OF n] have lo: "2 ^ nat (bitlen ?n - 1) \<le> ?n" and hi: "?n < 2 ^ nat (bitlen ?n)"
    by simp_all
  have b1: "1 \<le> bitlen ?n"
    using n by (simp add: bitlen_alt_def)
  have "(2::rat) powi (bitlen ?n - 1) = 2 ^ nat (bitlen ?n - 1)"
    using b1 by (simp add: power_int_def)
  also have "\<dots> = of_int (2 ^ nat (bitlen ?n - 1))" by simp
  also have "\<dots> \<le> of_int ?n" using lo by (simp only: of_int_le_iff)
  also have "\<dots> \<le> a" by simp
  finally have 1: "2 powi (bitlen ?n - 1) \<le> a" .
  have "?n + 1 \<le> 2 ^ nat (bitlen ?n)" using hi by simp
  then have "(of_int (?n + 1) :: rat) \<le> of_int (2 ^ nat (bitlen ?n))"
    by (simp only: of_int_le_iff)
  moreover have "a < of_int (?n + 1)" using floor_correct [of a] by simp
  ultimately have "a < of_int (2 ^ nat (bitlen ?n))" by linarith
  also have "\<dots> = 2 powi (bitlen ?n - 1 + 1)"
    using b1 by (simp add: power_int_def)
  finally show ?thesis using 1 by simp
qed

lemma expo_bounds_lt1:
  assumes "0 < (a::rat)" and "a < 1"
  shows "2 powi (- int (ceillog2 (nat \<lceil>1 / a\<rceil>))) \<le> a
         \<and> a < 2 powi (- int (ceillog2 (nat \<lceil>1 / a\<rceil>)) + 1)"
proof -
  define z where "z = \<lceil>1 / a\<rceil>"
  define c where "c = nat z"
  define n where "n = ceillog2 c"
  have r: "1 < 1 / a" using assms by simp
  then have "rat_of_int 1 < 1 / a" by (simp only: of_int_1)
  then have "1 < z" unfolding z_def by (rule less_ceiling_iff [THEN iffD2])
  then have c2: "2 \<le> c" unfolding c_def by linarith
  have zc: "rat_of_int z = of_nat c" using \<open>1 < z\<close> unfolding c_def by simp
  have up: "1 / a \<le> of_int z" unfolding z_def by (rule le_of_int_ceiling)
  have low: "rat_of_int z < 1 / a + 1" unfolding z_def using ceiling_correct [of "1 / a"] by linarith
  have le: "c \<le> 2 ^ n" unfolding n_def by (rule le_two_power_ceillog2)
  then have "(of_nat c :: rat) \<le> of_nat (2 ^ n)" by (simp only: of_nat_le_iff)
  moreover have "(of_nat (2 ^ n) :: rat) = 2 ^ n" by simp
  ultimately have "1 / a \<le> 2 ^ n" using up zc by linarith
  then have "1 \<le> 2 ^ n * a" using assms(1) by (simp add: field_simps)
  then have 1: "2 powi (- int n) \<le> a"
    by (simp add: power_int_minus field_simps)
  have n1: "n \<noteq> 0"
  proof
    assume "n = 0"
    with le have "c \<le> 1" by simp
    with c2 show False by simp
  qed
  have "0 < c" using c2 by simp
  then have gt: "2 ^ n < 2 * c" unfolding n_def using two_power_ceillog2_gt [of c] by simp
  obtain k where k: "n = Suc k" using n1 by (cases n) simp_all
  from gt have "2 ^ k < c" unfolding k by simp
  then have "2 ^ k + 1 \<le> c" by simp
  then have "(of_nat (2 ^ k + 1) :: rat) \<le> of_nat c" by (simp only: of_nat_le_iff)
  moreover have "(of_nat (2 ^ k + 1) :: rat) = 2 ^ k + 1" by simp
  ultimately have "(2::rat) ^ k < 1 / a" using zc low by linarith
  then have "a * 2 ^ k < 1" using assms(1) by (simp add: field_simps)
  then have "a < 2 powi (- int k)"
    by (simp add: power_int_minus field_simps)
  moreover have "- int n + 1 = - int k" unfolding k by simp
  ultimately show ?thesis using 1 unfolding n_def c_def z_def by simp
qed

lemma expo_bounds:
  assumes "x \<noteq> 0"
  shows "2 powi expo x \<le> \<bar>x\<bar>" and "\<bar>x\<bar> < 2 powi (expo x + 1)"
proof -
  have "2 powi expo x \<le> \<bar>x\<bar> \<and> \<bar>x\<bar> < 2 powi (expo x + 1)"
  proof (cases "1 \<le> \<bar>x\<bar>")
    case True
    then show ?thesis using expo_bounds_ge1 [of "\<bar>x\<bar>"] by (simp add: expo_def)
  next
    case False
    then show ?thesis using expo_bounds_lt1 [of "\<bar>x\<bar>"] assms by (simp add: expo_def)
  qed
  then show "2 powi expo x \<le> \<bar>x\<bar>" and "\<bar>x\<bar> < 2 powi (expo x + 1)" by simp_all
qed

lemma expo_unique:
  assumes "2 powi E \<le> \<bar>x\<bar>" and "\<bar>x\<bar> < 2 powi (E + 1)"
  shows "expo x = E"
proof -
  have x: "x \<noteq> 0"
  proof
    assume "x = 0"
    with assms(1) have "(2::rat) powi E \<le> 0" by simp
    moreover have "(0::rat) < 2 powi E" by simp
    ultimately show False by linarith
  qed
  have gt: "(0::rat) < 2 powi n" for n by simp
  have "\<not> expo x < E"
  proof
    assume "expo x < E"
    then have "(2::rat) powi (expo x + 1) \<le> 2 powi E"
      by (intro power_int_increasing) simp_all
    with expo_bounds(2) [OF x] assms(1) show False by linarith
  qed
  moreover have "\<not> E < expo x"
  proof
    assume "E < expo x"
    then have "(2::rat) powi (E + 1) \<le> 2 powi expo x"
      by (intro power_int_increasing) simp_all
    with expo_bounds(1) [OF x] assms(2) show False by linarith
  qed
  ultimately show ?thesis by simp
qed

lemma expo_mono:
  assumes "0 < x" and "x \<le> y"
  shows "expo x \<le> expo y"
proof (rule ccontr)
  assume "\<not> expo x \<le> expo y"
  then have "(2::rat) powi (expo y + 1) \<le> 2 powi expo x"
    by (intro power_int_increasing) simp_all
  moreover have "y < 2 powi (expo y + 1)" using expo_bounds(2) [of y] assms by simp
  moreover have "2 powi expo x \<le> x" using expo_bounds(1) [of x] assms by simp
  ultimately show False using assms(2) by linarith
qed


lemma powi2_less_D:
  assumes "(2::rat) powi a < 2 powi b"
  shows "a < b"
proof (rule ccontr)
  assume "\<not> a < b"
  then have "(2::rat) powi b \<le> 2 powi a"
    by (intro power_int_increasing) simp_all
  with assms show False by simp
qed

lemma round_half_even_of_int [simp]: "round_half_even (of_int n) = n"
  by (simp add: round_half_even_def)

lemma round_half_even_0 [simp]: "round_half_even 0 = 0"
  using round_half_even_of_int [of 0] by simp

lemma round_half_even_range:
  "round_half_even x = \<lfloor>x\<rfloor> \<or> round_half_even x = \<lfloor>x\<rfloor> + 1"
  by (simp add: round_half_even_def Let_def)

lemma round_half_even_mono:
  assumes "x \<le> y"
  shows "round_half_even x \<le> round_half_even y"
proof (cases "\<lfloor>x\<rfloor> = \<lfloor>y\<rfloor>")
  case True
  then have "x - of_int \<lfloor>x\<rfloor> \<le> y - of_int \<lfloor>y\<rfloor>"
    using assms by simp
  then show ?thesis
    using True by (auto simp: round_half_even_def Let_def)
next
  case False
  moreover have "\<lfloor>x\<rfloor> \<le> \<lfloor>y\<rfloor>" using assms by (rule floor_mono)
  ultimately have "\<lfloor>x\<rfloor> + 1 \<le> \<lfloor>y\<rfloor>" by simp
  then show ?thesis
    using round_half_even_range [of x] round_half_even_range [of y] by linarith
qed

lemma round_half_even_nonneg: "0 \<le> x \<Longrightarrow> 0 \<le> round_half_even x"
  using round_half_even_mono [of 0 x] round_half_even_of_int [of 0] by simp

lemma raw_round_grid: "raw_round x = grid (max (expo x) (- 1022) - 52) x"
  by (simp add: raw_round_def)

lemma grid_mono: "x \<le> y \<Longrightarrow> grid e x \<le> grid e y"
  unfolding grid_def
  by (intro mult_right_mono round_half_even_mono divide_right_mono)
     (simp_all add: round_half_even_mono divide_right_mono)

lemma grid_fixed: "grid e (of_int m * 2 powi e) = of_int m * 2 powi e"
  by (simp add: grid_def)

lemma grid_fixed_coarser:
  assumes "e \<le> e'"
  shows "grid e (of_int m * 2 powi e') = of_int m * 2 powi e'"
proof -
  have "(2::rat) powi e' = 2 powi (e' - e) * 2 powi e"
    by (simp add: power_int_add [symmetric])
  also have "(2::rat) powi (e' - e) = of_int (2 ^ nat (e' - e))"
    using assms by (simp add: power_int_def)
  finally have "of_int m * (2::rat) powi e' = of_int (m * 2 ^ nat (e' - e)) * 2 powi e"
    by simp
  then show ?thesis
    by (simp only: grid_fixed)
qed

lemma raw_round_exact:
  assumes "x = of_int m * 2 powi e'" and "\<bar>m\<bar> < 2 ^ 53" and "- 1074 \<le> e'"
  shows "raw_round x = x"
proof (cases "x = 0")
  case True
  then show ?thesis by (simp add: raw_round_def grid_def)
next
  case False
  have "2 powi expo x \<le> \<bar>x\<bar>" using False by (rule expo_bounds)
  also have "\<bar>x\<bar> = of_int \<bar>m\<bar> * 2 powi e'"
    unfolding assms(1) by (simp add: abs_mult)
  also have "\<dots> < of_int (2 ^ 53) * 2 powi e'"
    using assms(2) by (intro mult_strict_right_mono) (simp_all only: of_int_less_iff zero_less_power_int zero_less_numeral)
  also have "\<dots> = 2 powi (53 + e')"
    by (simp add: power_int_add)
  finally have "expo x < 53 + e'"
    by (rule powi2_less_D)
  then have "max (expo x) (- 1022) - 52 \<le> e'"
    using assms(3) by simp
  then show ?thesis
    unfolding raw_round_grid assms(1) by (rule grid_fixed_coarser)
qed


lemma raw_round_0 [simp]: "raw_round 0 = 0"
  by (simp add: raw_round_def grid_def)

lemma grid_nonneg: "0 \<le> x \<Longrightarrow> 0 \<le> grid e x"
  unfolding grid_def by (intro mult_nonneg_nonneg) (simp_all add: round_half_even_nonneg)

lemma raw_round_nonneg: "0 \<le> x \<Longrightarrow> 0 \<le> raw_round x"
  unfolding raw_round_grid by (rule grid_nonneg)

lemma raw_round_mono:
  assumes "0 \<le> x" and "x \<le> y"
  shows "raw_round x \<le> raw_round y"
proof (cases "x = 0")
  case True
  then show ?thesis using assms raw_round_nonneg [of y] by simp
next
  case False
  then have x: "0 < x" using assms(1) by simp
  then have y: "0 < y" using assms(2) by simp
  let ?ex = "max (expo x) (- 1022) - 52"
  let ?ey = "max (expo y) (- 1022) - 52"
  have le: "expo x \<le> expo y" using x assms(2) by (rule expo_mono)
  show ?thesis
  proof (cases "?ex = ?ey")
    case True
    then show ?thesis
      unfolding raw_round_grid using grid_mono [OF assms(2), of ?ey] by simp
  next
    case False
    then have lt: "expo x < expo y" and big: "- 1022 < expo y"
      using le by auto
    define p :: rat where "p = of_int 1 * 2 powi expo y"
    have p: "p = 2 powi expo y" by (simp add: p_def)
    have "x < 2 powi (expo x + 1)" using expo_bounds(2) [of x] x by simp
    also have "\<dots> \<le> p" unfolding p using lt by (intro power_int_increasing) simp_all
    finally have xp: "x \<le> p" by simp
    have py: "p \<le> y" unfolding p using expo_bounds(1) [of y] y by simp
    have "?ex \<le> expo y" using le big by simp
    then have 1: "grid ?ex p = p" unfolding p_def by (rule grid_fixed_coarser)
    have "?ey \<le> expo y" using big by simp
    then have 2: "grid ?ey p = p" unfolding p_def by (rule grid_fixed_coarser)
    have "grid ?ex x \<le> grid ?ex p" using xp by (rule grid_mono)
    also have "\<dots> = grid ?ey p" using 1 2 by simp
    also have "\<dots> \<le> grid ?ey y" using py by (rule grid_mono)
    finally show ?thesis unfolding raw_round_grid .
  qed
qed

lemma raw_round_of_int:
  assumes "\<bar>n\<bar> \<le> 2 ^ 53"
  shows "raw_round (of_int n) = of_int n"
proof (cases "\<bar>n\<bar> = 2 ^ 53")
  case True
  then have "n = 2 ^ 53 \<or> n = - (2 ^ 53)" by linarith
  then have "(of_int n :: rat) = of_int (n div 2) * 2 powi 1" and "\<bar>n div 2\<bar> < 2 ^ 53"
    by auto
  then show ?thesis
    using raw_round_exact [of "of_int n" "n div 2" 1] by simp
next
  case False
  then have "\<bar>n\<bar> < 2 ^ 53" using assms by simp
  then show ?thesis
    using raw_round_exact [of "of_int n" n 0] by simp
qed

lemma raw_round_powi:
  assumes "- 1074 \<le> k"
  shows "raw_round (2 powi k) = 2 powi k"
  using raw_round_exact [of "2 powi k" 1 k] assms by simp

lemma huge_powi: "huge = 2 powi 1024"
  by (simp add: huge_def)

lemma huge_pos: "0 < huge"
  by (simp add: huge_powi)

lemma powi_less_huge: "k < 1024 \<Longrightarrow> 2 powi k < huge"
  unfolding huge_powi by (intro power_int_strict_increasing) simp_all

lemma round64_0 [simp]: "round64 0 = Fin 0"
  using huge_pos by (simp add: round64_def)

lemma round64_of_int:
  assumes "\<bar>n\<bar> \<le> 2 ^ 53"
  shows "round64 (of_int n) = Fin (of_int n)"
proof -
  have "\<bar>rat_of_int n\<bar> \<le> rat_of_int (2 ^ 53)"
    unfolding of_int_abs [symmetric] using assms by (simp only: of_int_le_iff)
  also have "\<dots> = 2 powi 53" by simp
  also have "\<dots> < huge" by (rule powi_less_huge) simp
  finally show ?thesis
    by (simp add: round64_def raw_round_of_int [OF assms] Let_def abs_less_iff)
qed

lemma round64_powi:
  assumes "- 1074 \<le> k" and "k < 1024"
  shows "round64 (2 powi k) = Fin (2 powi k)"
proof -
  have "(2::rat) powi k < huge"
    using assms(2) by (rule powi_less_huge)
  moreover have "- huge < (0::rat)" using huge_pos by simp
  moreover have "(0::rat) < 2 powi k" by simp
  ultimately have "\<not> huge \<le> 2 powi k" and "\<not> 2 powi k \<le> - huge" by linarith+
  then show ?thesis
    by (simp add: round64_def raw_round_powi [OF assms(1)] Let_def)
qed

lemma round64_Fin_bound:
  assumes "round64 x = Fin y"
  shows "\<bar>y\<bar> < huge" and "y = raw_round x"
  using assms by (auto simp: round64_def Let_def abs_less_iff split: if_splits)

lemma round64_mono:
  assumes "0 \<le> x" and "x \<le> y"
  shows "jle (round64 x) (round64 y)"
proof -
  have "raw_round x \<le> raw_round y" using assms by (rule raw_round_mono)
  moreover have "0 \<le> raw_round x" using assms(1) by (rule raw_round_nonneg)
  moreover have "- huge < (0::rat)" using huge_pos by simp
  ultimately show ?thesis
    by (auto simp: round64_def Let_def)
qed


lemma round64_nonneg: "0 \<le> x \<Longrightarrow> jle (Fin 0) (round64 x)"
  using round64_mono [of 0 x] by simp

lemma jle_FinE:
  assumes "jle (Fin c) a"
  obtains (fin) x where "a = Fin x" and "c \<le> x" | (inf) "a = PInf"
  using assms by (cases a) simp_all

lemma jle_trans: "jle x y \<Longrightarrow> jle y z \<Longrightarrow> jle x z"
  by (cases x; cases y; cases z) simp_all

lemma jle_refl: "jle (Fin c) x \<Longrightarrow> jle x x"
  by (cases x) simp_all

lemma jle_PInf: "jle (Fin c) x \<Longrightarrow> jle x PInf"
  by (cases x) simp_all

lemma plus_nonneg:
  assumes "jle (Fin 0) a" and "jle (Fin 0) b"
  shows "jle (Fin 0) (a + b)"
  using assms by (elim jle_FinE) (simp_all add: round64_nonneg)

lemma plus_mono:
  assumes "jle (Fin 0) a" and "jle a c" and "jle (Fin 0) b" and "jle b d"
  shows "jle (a + b) (c + d)"
proof -
  have c: "jle (Fin 0) c" and d: "jle (Fin 0) d"
    using assms by (blast intro: jle_trans)+
  have ab: "jle (Fin 0) (a + b)" using assms(1,3) by (rule plus_nonneg)
  from c show ?thesis
  proof (cases rule: jle_FinE)
    case inf
    then have "c + d = PInf" using d by (elim jle_FinE) simp_all
    then show ?thesis using ab by (simp add: jle_PInf)
  next
    case cf: (fin x)
    from d show ?thesis
    proof (cases rule: jle_FinE)
      case inf
      then show ?thesis using cf ab by (simp add: jle_PInf)
    next
      case df: (fin y)
      from assms(1) assms(2) cf obtain u where u: "a = Fin u" "0 \<le> u" "u \<le> x"
        by (elim jle_FinE) simp_all
      from assms(3) assms(4) df obtain v where v: "b = Fin v" "0 \<le> v" "v \<le> y"
        by (elim jle_FinE) simp_all
      show ?thesis
        unfolding cf df u v using u(2,3) v(2,3) by (simp add: round64_mono)
    qed
  qed
qed

lemma times_pos:
  assumes "jle (Fin 1) a" and "jle (Fin 1) b"
  shows "jle (Fin 1) (a * b)"
proof -
  have r: "jle (Fin 1) (round64 (x * y))" if "1 \<le> x" "1 \<le> y" for x y :: rat
  proof -
    have "1 * 1 \<le> x * y" using that by (intro mult_mono) simp_all
    then have "jle (round64 1) (round64 (x * y))" by (intro round64_mono) simp_all
    then show ?thesis using round64_of_int [of 1] by simp
  qed
  show ?thesis
    using assms by (elim jle_FinE) (auto simp: r)
qed

lemma times_mono:
  assumes "jle (Fin 1) a" and "jle a c" and "jle (Fin 1) b" and "jle b d"
  shows "jle (a * b) (c * d)"
proof -
  have c: "jle (Fin 1) c" and d: "jle (Fin 1) d"
    using assms by (blast intro: jle_trans)+
  have ab: "jle (Fin 1) (a * b)" using assms(1,3) by (rule times_pos)
  from c show ?thesis
  proof (cases rule: jle_FinE)
    case inf
    then have "c * d = PInf" using d by (elim jle_FinE) auto
    then show ?thesis using ab by (simp add: jle_PInf)
  next
    case cf: (fin x)
    from d show ?thesis
    proof (cases rule: jle_FinE)
      case inf
      then have "c * d = PInf" using cf by auto
      then show ?thesis using ab by (simp add: jle_PInf)
    next
      case df: (fin y)
      from assms(1) assms(2) cf obtain u where u: "a = Fin u" "1 \<le> u" "u \<le> x"
        by (elim jle_FinE) simp_all
      from assms(3) assms(4) df obtain v where v: "b = Fin v" "1 \<le> v" "v \<le> y"
        by (elim jle_FinE) simp_all
      have "u * v \<le> x * y" using u v by (intro mult_mono) simp_all
      moreover have "0 \<le> u * v" using u v by simp
      ultimately show ?thesis
        unfolding cf df u v by (simp add: round64_mono)
    qed
  qed
qed

lemma times_Fin_nonneg:
  assumes "0 < x" and "jle (Fin 0) b"
  shows "jle (Fin 0) (Fin x * b)"
  using assms(2) assms(1) by (elim jle_FinE) (simp_all add: round64_nonneg)

lemma divide_nonneg:
  assumes "0 < d" and "jle (Fin 0) a"
  shows "jle (Fin 0) (a / Fin d)"
  using assms(2) assms(1) by (elim jle_FinE) (simp_all add: round64_nonneg)

lemma divide_mono:
  assumes "0 < d" and "jle (Fin 0) a" and "jle a c"
  shows "jle (a / Fin d) (c / Fin d)"
proof -
  have c: "jle (Fin 0) c" using assms(2,3) by (rule jle_trans)
  from c show ?thesis
  proof (cases rule: jle_FinE)
    case inf
    then have "c / Fin d = PInf" using assms(1) by simp
    then show ?thesis using divide_nonneg [OF assms(1,2)] by (simp add: jle_PInf)
  next
    case cf: (fin x)
    from assms(2) assms(3) cf obtain u where u: "a = Fin u" "0 \<le> u" "u \<le> x"
      by (elim jle_FinE) simp_all
    have "u / d \<le> x / d" using u(3) assms(1) by (simp add: divide_right_mono)
    moreover have "0 \<le> u / d" using u(2) assms(1) by simp
    ultimately show ?thesis
      unfolding cf u using assms(1) by (simp add: round64_mono)
  qed
qed

lemma divide_anti:
  assumes "0 \<le> b" and "0 < c" and "jle (Fin c) x" and "jle x y"
  shows "jle (Fin b / y) (Fin b / x)"
proof -
  have y: "jle (Fin c) y" using assms(3,4) by (rule jle_trans)
  have bx: "jle (Fin 0) (Fin b / x)"
    using assms(3) assms(1,2) by (elim jle_FinE) (simp_all add: round64_nonneg)
  from y show ?thesis
  proof (cases rule: jle_FinE)
    case inf
    then show ?thesis using bx by simp
  next
    case yf: (fin w)
    from assms(3) assms(4) yf obtain u where u: "x = Fin u" "c \<le> u" "u \<le> w"
      by (elim jle_FinE) simp_all
    have "b / w \<le> b / u" using u assms(1,2) by (intro divide_left_mono) simp_all
    moreover have "0 \<le> b / w" using yf(2) assms(1,2) by simp
    ultimately show ?thesis
      unfolding yf u using u(2) yf(2) assms(2) by (simp add: round64_mono)
  qed
qed



lemma round64_1 [simp]: "round64 1 = Fin 1"
  using round64_of_int [of 1] by simp

lemma round64_numeral [simp]:
  "(numeral n :: int) \<le> 2 ^ 53 \<Longrightarrow> round64 (numeral n) = Fin (numeral n)"
  using round64_of_int [of "numeral n"] by simp

lemma round64_overflow:
  assumes "huge \<le> x"
  shows "round64 x = PInf"
proof -
  have "raw_round huge = huge"
    unfolding huge_powi by (rule raw_round_powi) simp
  moreover have "raw_round huge \<le> raw_round x"
    using huge_pos assms by (intro raw_round_mono) simp_all
  ultimately show ?thesis
    by (simp add: round64_def Let_def)
qed

lemma round64_between:
  assumes "0 \<le> lo" and "hi \<le> 2 ^ 53" and "of_int lo \<le> x" and "x \<le> of_int hi"
  shows "\<exists>y. round64 x = Fin y \<and> of_int lo \<le> y \<and> y \<le> of_int hi"
proof -
  have lh: "lo \<le> hi" using assms(3,4) by linarith
  have x: "0 \<le> x" using assms(1,3) by linarith
  have "jle (round64 (of_int lo)) (round64 x)"
    using assms(1,3) by (intro round64_mono) simp_all
  moreover have "round64 (of_int lo) = Fin (of_int lo)"
    using assms(1,2) lh by (intro round64_of_int) simp
  moreover have "jle (round64 x) (round64 (of_int hi))"
    using x assms(4) by (rule round64_mono)
  moreover have "round64 (of_int hi) = Fin (of_int hi)"
    using assms(1,2) lh by (intro round64_of_int) simp
  ultimately show ?thesis
    by (cases "round64 x") simp_all
qed

lemma Fin_times_int:
  assumes "\<bar>a * b\<bar> \<le> 2 ^ 53"
  shows "Fin (of_int a) * Fin (of_int b) = Fin (of_int (a * b))"
  using round64_of_int [OF assms] by simp

lemma Fin_plus_int:
  assumes "\<bar>a + b\<bar> \<le> 2 ^ 53"
  shows "Fin (of_int a) + Fin (of_int b) = Fin (of_int (a + b))"
  using round64_of_int [OF assms] by simp

lemma Fin_divide_int:
  assumes "b \<noteq> 0" and "b dvd a" and "\<bar>a div b\<bar> \<le> 2 ^ 53"
  shows "Fin (of_int a) / Fin (of_int b) = Fin (of_int (a div b))"
proof -
  have "(of_int a :: rat) / of_int b = of_int (a div b)"
    using assms(1,2) by auto
  then show ?thesis
    using round64_of_int [OF assms(3)] assms(1) by simp
qed

lemma jpow_2: "jpow x 2 = x * x"
  by (simp add: numeral_2_eq_2)

lemma plus_NaN_right [simp]: "x + NaN = (NaN :: jsnum)"
  by (cases x) simp_all

lemma times_NaN_right [simp]: "x * NaN = (NaN :: jsnum)"
  by (cases x) simp_all

lemma divide_NaN_right [simp]: "x / NaN = (NaN :: jsnum)"
  by (cases x) simp_all

lemma jpow_2_NaN [simp]: "jpow NaN 2 = NaN"
  by (simp add: jpow_2)

lemma plus_PInf:
  assumes "jle (Fin c) x"
  shows "x + PInf = PInf" and "PInf + x = PInf"
  using assms by (cases x; simp)+

lemma times_PInf:
  assumes "jle (Fin 1) x"
  shows "x * PInf = PInf" and "PInf * x = PInf"
  using assms by (cases x; simp)+

lemma plus_pos:
  assumes "jle (Fin 1) a" and "jle (Fin 0) b"
  shows "jle (Fin 1) (a + b)" and "jle (Fin 1) (b + a)"
proof -
  have "jle (Fin 1 + Fin 0) (a + b)"
    using assms by (intro plus_mono) simp_all
  then show "jle (Fin 1) (a + b)" by simp
  have "jle (Fin 0 + Fin 1) (b + a)"
    using assms by (intro plus_mono) simp_all
  then show "jle (Fin 1) (b + a)" by simp
qed

lemma jle_0_1: "jle (Fin 1) x \<Longrightarrow> jle (Fin 0) x"
  by (cases x) simp_all

lemma jpow_2_pos: "jle (Fin 1) x \<Longrightarrow> jle (Fin 1) (jpow x 2)"
  unfolding jpow_2 by (rule times_pos)

lemma divide_ge1:
  assumes "0 < d" and "d \<le> x"
  shows "jle (Fin 1) (Fin x / Fin d)"
proof -
  have "1 \<le> x / d" using assms by simp
  then have "jle (round64 1) (round64 (x / d))" by (intro round64_mono) simp_all
  then show ?thesis using assms(1) by simp
qed

lemma divide_Fin_nonneg:
  assumes "0 \<le> x" and "0 < d"
  shows "jle (Fin 0) (Fin x / Fin d)"
  using assms by (simp add: round64_nonneg)

lemma divide_lower:
  assumes "jle (Fin 1) a" and "0 < d" and "d \<le> 2 powi k" and "k \<le> 1074" and "- 1024 < k"
  shows "jle (Fin (2 powi (- k))) (a / Fin d)"
  using assms(1)
proof (cases rule: jle_FinE)
  case inf
  then show ?thesis using assms(2) by simp
next
  case (fin x)
  have "1 / 2 powi k \<le> x / d"
    using fin(2) assms(2,3) by (intro frac_le) simp_all
  then have "2 powi (- k) \<le> x / d"
    by (simp add: power_int_minus divide_inverse)
  then have "jle (round64 (2 powi (- k))) (round64 (x / d))"
    by (intro round64_mono) simp_all
  moreover have "round64 (2 powi (- k)) = Fin (2 powi (- k))"
    using assms(4,5) by (intro round64_powi) simp_all
  ultimately show ?thesis
    using fin(1) assms(2) by simp
qed

lemma plus_Fin_bound:
  assumes "a + b = Fin d"
  shows "\<bar>d\<bar> < huge"
  using assms by (cases a; cases b) (auto simp: round64_Fin_bound(1) split: if_splits)

lemma divide_pos_finite:
  assumes "1 \<le> b" and "b \<le> 2 powi j" and "2 powi (- k) \<le> d" and "d < huge"
    and "j + k < 1024" and "- 1074 \<le> j + k"
  shows "\<exists>t. Fin b / Fin d = Fin t \<and> 0 < t"
proof -
  have d: "0 < d"
  proof -
    have "(0::rat) < 2 powi (- k)" by simp
    with assms(3) show ?thesis by linarith
  qed
  have "1 / huge \<le> b / d"
    using assms(1,4) d by (intro frac_le) simp_all
  then have "2 powi (- 1024) \<le> b / d"
    by (simp only: huge_powi power_int_minus inverse_eq_divide)
  then have "jle (round64 (2 powi (- 1024))) (round64 (b / d))"
    by (intro round64_mono) simp_all
  moreover have "round64 (2 powi (- 1024)) = Fin (2 powi (- 1024))"
    by (intro round64_powi) simp_all
  moreover have "b / d \<le> 2 powi j / 2 powi (- k)"
    using assms(1,2,3) by (intro frac_le) simp_all
  then have "b / d \<le> 2 powi (j + k)"
    by (simp add: power_int_add power_int_minus divide_inverse)
  then have "jle (round64 (b / d)) (round64 (2 powi (j + k)))"
    using assms(1) d by (intro round64_mono) simp_all
  moreover have "round64 (2 powi (j + k)) = Fin (2 powi (j + k))"
    using assms(5,6) by (intro round64_powi) simp_all
  ultimately obtain t where "round64 (b / d) = Fin t" and "2 powi (- 1024) \<le> t"
    by (cases "round64 (b / d)") auto
  moreover have "(0::rat) < 2 powi (- 1024)" by simp
  ultimately show ?thesis
    using d by (intro exI [of _ t]) auto
qed

text \<open>Operations on integers that stay within \<open>2 ^ 53\<close> are exact.\<close>

lemma le_mult_right: "0 \<le> (x::int) \<Longrightarrow> 1 \<le> y \<Longrightarrow> x \<le> x * y"
  using mult_left_mono [of 1 y x] by simp

lemma le_mult_left: "0 \<le> (x::int) \<Longrightarrow> 1 \<le> y \<Longrightarrow> x \<le> y * x"
  using mult_right_mono [of 1 y x] by simp

lemma times_exact:
  assumes "x = of_int a" and "y = of_int b" and "0 \<le> a * b" and "a * b \<le> 2 ^ 53"
  shows "Fin x * Fin y = Fin (of_int (a * b))"
  unfolding assms(1,2) using assms(3,4) by (intro Fin_times_int) simp

lemma plus_exact:
  assumes "x = of_int a" and "y = of_int b" and "0 \<le> a + b" and "a + b \<le> 2 ^ 53"
  shows "Fin x + Fin y = Fin (of_int (a + b))"
  unfolding assms(1,2) using assms(3,4) by (intro Fin_plus_int) simp

lemma divide_exact:
  assumes "x = of_int a" and "y = of_int b" and "0 < b" and "a = b * q"
    and "0 \<le> q" and "q \<le> 2 ^ 53"
  shows "Fin x / Fin y = Fin (of_int q)"
proof -
  have "a div b = q" using assms(3,4) by simp
  moreover have "b dvd a" using assms(4) by simp
  ultimately show ?thesis
    unfolding assms(1,2) using Fin_divide_int [of b a] assms(3,5,6) by simp
qed

text \<open>Values of at least 1: products and sums of them never underflow.\<close>

lemma plus_ge1:
  assumes "jle (Fin 1) a" and "jle (Fin 1) b"
  shows "jle (Fin 1) (a + b)"
  using assms(1) jle_0_1 [OF assms(2)] by (rule plus_pos(1))

lemmas ge1_intros = times_pos plus_ge1 jpow_2_pos

section \<open>The gated activations\<close>

lemma isGated_operations_iff: "isGated_operations m = gated m"
  by (auto simp: isGated_operations_def gated_def includes_str_def split: option.splits)

lemma isGated_parameters_iff: "isGated_parameters m = gated m"
  by (auto simp: isGated_parameters_def gated_def includes_str_def split: option.splits)

text \<open>
  C10.  The activation is gated exactly when \<^verbatim>\<open>hidden_act\<close> is one of the strings
  \<^verbatim>\<open>"silu"\<close>, \<^verbatim>\<open>"swiglu"\<close>, \<^verbatim>\<open>"geglu"\<close>, compared character by character: \<^verbatim>\<open>"SiLU"\<close>,
  \<^verbatim>\<open>"gelu"\<close> and an absent field are not gated.  The parameter counter and the operation
  counter classify every record alike.
\<close>

theorem C10_gated_classification:
  "isGated_parameters m = isGated_operations m
   \<and> (isGated_parameters m \<longleftrightarrow>
        hidden_act m \<in> {Some ''silu'', Some ''swiglu'', Some ''geglu''})
   \<and> (hidden_act m = Some ''SiLU'' \<or> hidden_act m = Some ''gelu'' \<or> hidden_act m = None
        \<longrightarrow> \<not> isGated_parameters m \<and> \<not> isGated_operations m)"
  by (auto simp: isGated_parameters_def isGated_operations_def includes_str_def
      split: option.splits)

theorem C10_gated_classification_witness:
  "hidden_act (gpt2_small\<lparr>hidden_act := Some ''SiLU''\<rparr>) = Some ''SiLU''
   \<and> \<not> isGated_parameters (gpt2_small\<lparr>hidden_act := Some ''SiLU''\<rparr>)
   \<and> \<not> isGated_operations (gpt2_small\<lparr>hidden_act := Some ''SiLU''\<rparr>)"
  using C10_gated_classification [of "gpt2_small\<lparr>hidden_act := Some ''SiLU''\<rparr>"]
  by simp

section \<open>The parameter count\<close>

text \<open>
  C1, as amended.  For a record whose six numeric fields are positive integers, with a head
  count that divides the hidden size, and whose parameter count
  \<open>embedding + layers * (attention + feedforward + layernorm)\<close> is at most \<open>2 ^ 53\<close>,
  \<^const>\<open>calculateModelParameters\<close> returns exactly that integer, where the embedding is
  \<open>vocab * hidden\<close>, doubled unless the embeddings are tied, the attention is
  \<open>2 * hidden\<^sup>2 + 2 * hidden * kv_heads * (hidden div heads)\<close>, the feedforward is
  \<open>hidden * intermediate\<close> times 3 for a gated activation and 2 otherwise, and the
  layernorm is \<open>4 * hidden\<close>.
\<close>

theorem C1_parameter_count:
  assumes "hidden_size m = Some (Fin (of_int h))"
    and "num_hidden_layers m = Some (Fin (of_int l))"
    and "intermediate_size m = Some (Fin (of_int i))"
    and "vocab_size m = Some (Fin (of_int v))"
    and "num_attention_heads m = Some (Fin (of_int a))"
    and "num_key_value_heads m = Some (Fin (of_int k))"
    and "0 < h" and "0 < l" and "0 < i" and "0 < v" and "0 < a" and "0 < k"
    and "a dvd h"
    and "v * h * (if tie_word_embeddings m = Some True then 1 else 2)
           + l * ((2 * h\<^sup>2 + 2 * h * k * (h div a))
                  + (if gated m then 3 else 2) * h * i
                  + 4 * h) \<le> 2 ^ 53"
  shows "calculateModelParameters m =
           Fin (of_int
             (v * h * (if tie_word_embeddings m = Some True then 1 else 2)
              + l * ((2 * h\<^sup>2 + 2 * h * k * (h div a))
                     + (if gated m then 3 else 2) * h * i
                     + 4 * h)))"
proof -
  define t :: int where "t = (if tie_word_embeddings m = Some True then 1 else 2)"
  define g :: int where "g = (if gated m then 3 else 2)"
  define q where "q = h div a"
  define VH where "VH = v * h"
  define E where "E = VH * t"
  define H2 where "H2 = h * h"
  define TH where "TH = 2 * h"
  define THK where "THK = TH * k"
  define KV where "KV = THK * q"
  define GH where "GH = g * h"
  define F where "F = GH * i"
  define S where "S = 2 * H2 + KV + F + 4 * h"
  define LS where "LS = l * S"
  note defs = t_def g_def q_def VH_def E_def H2_def TH_def THK_def KV_def GH_def F_def S_def LS_def
  have t: "1 \<le> t" and g: "1 \<le> g" by (simp_all add: t_def g_def)
  have hq: "h = a * q" using \<open>a dvd h\<close> by (simp add: q_def)
  have q: "1 \<le> q"
  proof (rule ccontr)
    assume "\<not> 1 \<le> q"
    then have "q \<le> 0" by simp
    then have "a * q \<le> 0" using \<open>0 < a\<close> by (simp add: mult_le_0_iff)
    with hq \<open>0 < h\<close> show False by simp
  qed
  have qh: "q \<le> h" using le_mult_left [of q a] q \<open>0 < a\<close> hq by simp
  have tot: "E + LS \<le> 2 ^ 53"
    using assms(14) by (simp add: defs power2_eq_square)
  have p: "0 < VH" "0 < H2" "0 < TH" "0 < GH"
    using assms(7-12) g by (simp_all add: VH_def H2_def TH_def GH_def)
  have p2: "0 < E" "0 < THK" "0 < F"
    using p t assms(7-12) by (simp_all add: E_def THK_def F_def)
  have p3: "0 < KV" using p2 q by (simp add: KV_def)
  have p4: "0 < S" using p p2 p3 assms(7) by (simp add: S_def)
  have p5: "0 < LS" using p4 assms(8) by (simp add: LS_def)
  have b1: "VH \<le> E" unfolding E_def using p(1) t by (intro le_mult_right) simp_all
  have b2: "TH \<le> THK" unfolding THK_def using p(3) assms(12) by (intro le_mult_right) simp_all
  have b3: "THK \<le> KV" unfolding KV_def using p2(2) q by (intro le_mult_right) simp_all
  have b4: "GH \<le> F" unfolding F_def using p(4) assms(9) by (intro le_mult_right) simp_all
  have b5: "S \<le> LS" unfolding LS_def using p4 assms(8) by (intro le_mult_left) simp_all
  have SB: "S \<le> 2 ^ 53" using tot p2 p5 b5 by linarith
  have hB: "h \<le> 2 ^ 53" using SB p p2 p3 assms(7) by (simp add: S_def)
  have bd: "VH \<le> 2 ^ 53" "E \<le> 2 ^ 53" "H2 \<le> 2 ^ 53" "2 * H2 \<le> 2 ^ 53" "TH \<le> 2 ^ 53"
    "THK \<le> 2 ^ 53" "KV \<le> 2 ^ 53" "2 * H2 + KV \<le> 2 ^ 53" "GH \<le> 2 ^ 53" "F \<le> 2 ^ 53"
    "4 * h \<le> 2 ^ 53" "2 * H2 + KV + F \<le> 2 ^ 53" "2 * H2 + KV + F + 4 * h \<le> 2 ^ 53"
    "LS \<le> 2 ^ 53"
    using tot SB p p2 p3 p5 b1 b2 b3 b4 b5 assms(7) unfolding S_def by linarith+
  have H: "ToNumber (hidden_size m) = Fin (of_int h)"
    and L: "ToNumber (num_hidden_layers m) = Fin (of_int l)"
    and I: "ToNumber (intermediate_size m) = Fin (of_int i)"
    and V: "ToNumber (vocab_size m) = Fin (of_int v)"
    and A: "ToNumber (num_attention_heads m) = Fin (of_int a)"
    and K: "ToNumber (num_key_value_heads m) = Fin (of_int k)"
    using assms(1-6) by (simp_all add: ToNumber_def)
  have T: "(if truthy (tie_word_embeddings m) then Fin 1 else Fin 2) = Fin (of_int t)"
    by (auto simp: truthy_def t_def split: option.splits)
  have G: "(if isGated_parameters m then Fin 3 else Fin 2) = Fin (of_int g)"
    by (simp add: isGated_parameters_iff g_def)
  have c1: "Fin (of_int v) * Fin (of_int h) = Fin (of_int VH)"
    unfolding VH_def using p p2 bd by (intro times_exact) (simp_all add: VH_def)
  have c2: "Fin (of_int VH) * Fin (of_int t) = Fin (of_int E)"
    unfolding E_def using p p2 bd by (intro times_exact) (simp_all add: E_def [symmetric])
  have embed: "ToNumber (vocab_size m) * ToNumber (hidden_size m)
                 * (if truthy (tie_word_embeddings m) then Fin 1 else Fin 2) = Fin (of_int E)"
    by (simp only: H V T c1 c2)
  have qB: "q \<le> 2 ^ 53" using qh hB by linarith
  have q0: "0 \<le> q" using q by simp
  have hs: "ToNumber (hidden_size m) / ToNumber (num_attention_heads m) = Fin (of_int q)"
    unfolding H A by (rule divide_exact [OF refl refl assms(11) hq q0 qB])
  have c4: "jpow (Fin (of_int h)) 2 = Fin (of_int H2)"
    unfolding jpow_2 H2_def using p p2 p3 p4 p5 bd assms(7)
    by (intro times_exact) (simp_all add: H2_def [symmetric] S_def)
  have c5: "Fin 2 * Fin (of_int H2) = Fin (of_int (2 * H2))"
    using p p2 p3 p4 p5 bd assms(7)
    by (intro times_exact) (simp_all add: S_def)
  have c6: "Fin 2 * Fin (of_int h) = Fin (of_int TH)"
    unfolding TH_def using p p2 p3 p4 p5 bd assms(7)
    by (intro times_exact) (simp_all add: S_def)
  have c7: "Fin (of_int TH) * Fin (of_int k) = Fin (of_int THK)"
    unfolding THK_def using p p2 p3 p4 p5 bd assms(7)
    by (intro times_exact) (simp_all add: THK_def [symmetric] S_def)
  have c8: "Fin (of_int THK) * Fin (of_int q) = Fin (of_int KV)"
    unfolding KV_def using p p2 p3 p4 p5 bd assms(7)
    by (intro times_exact) (simp_all add: KV_def [symmetric] S_def)
  have c9: "Fin (of_int (2 * H2)) + Fin (of_int KV) = Fin (of_int (2 * H2 + KV))"
    using p p2 p3 p4 p5 bd assms(7)
    by (intro plus_exact) (simp_all add: S_def)
  have attn: "Fin 2 * jpow (ToNumber (hidden_size m)) 2
                + Fin 2 * ToNumber (hidden_size m) * ToNumber (num_key_value_heads m)
                    * (ToNumber (hidden_size m) / ToNumber (num_attention_heads m))
              = Fin (of_int (2 * H2 + KV))"
    unfolding hs by (simp only: H K c4 c5 c6 c7 c8 c9)
  have c10: "Fin (of_int g) * Fin (of_int h) = Fin (of_int GH)"
    unfolding GH_def using p p2 p3 p4 p5 bd assms(7)
    by (intro times_exact) (simp_all add: GH_def [symmetric] S_def)
  have c11: "Fin (of_int GH) * Fin (of_int i) = Fin (of_int F)"
    unfolding F_def using p p2 p3 p4 p5 bd assms(7)
    by (intro times_exact) (simp_all add: F_def [symmetric] S_def)
  have ffn: "(if isGated_parameters m then Fin 3 else Fin 2) * ToNumber (hidden_size m)
               * ToNumber (intermediate_size m) = Fin (of_int F)"
    by (simp only: G H I c10 c11)
  have ln: "Fin 4 * ToNumber (hidden_size m) = Fin (of_int (4 * h))"
    unfolding H using p p2 p3 p4 p5 bd assms(7)
    by (intro times_exact) (simp_all add: S_def)
  have c13: "Fin (of_int (2 * H2 + KV)) + Fin (of_int F) = Fin (of_int (2 * H2 + KV + F))"
    using p p2 p3 p4 p5 bd assms(7)
    by (intro plus_exact) (simp_all add: S_def)
  have c14: "Fin (of_int (2 * H2 + KV + F)) + Fin (of_int (4 * h)) = Fin (of_int S)"
    unfolding S_def using p p2 p3 p4 p5 bd assms(7)
    by (intro plus_exact) simp_all
  have c15: "Fin (of_int l) * Fin (of_int S) = Fin (of_int LS)"
    unfolding LS_def using p p2 p3 p4 p5 bd
    by (intro times_exact) (simp_all add: LS_def [symmetric])
  have c16: "Fin (of_int E) + Fin (of_int LS) = Fin (of_int (E + LS))"
    using tot p2 p5 by (intro plus_exact) simp_all
  have "calculateModelParameters m = Fin (of_int (E + LS))"
    unfolding calculateModelParameters_def Let_def embed attn ffn ln
    by (simp only: L c13 c14 c15 c16)
  then show ?thesis
    by (simp add: defs power2_eq_square)
qed

text \<open>The GPT-2 small record has 123,568,896 parameters.\<close>

theorem C1_parameter_count_gpt2: "calculateModelParameters gpt2_small = Fin 123568896"
  using C1_parameter_count [of gpt2_small 768 12 3072 50257 12 12]
  by (simp add: gpt2_small_def gated_def)

text \<open>
  The claim as it stands fails for integer fields in general.  With a head count of zero
  the result is infinite.  With a head count that does not divide the hidden size it is
  not an integer: for \<^const>\<open>uneven_heads\<close> it is the binary64 number
  \<open>346.6666666666667\<close>, where the formula gives \<open>1040 / 3\<close>.  Above \<open>2 ^ 53\<close>
  the operations round: for \<^const>\<open>wide_embedding\<close> the result is
  90,071,994,694,893,568, where the formula gives 90,071,994,694,893,579.
\<close>

theorem C1_counterexample:
  "calculateModelParameters (gpt2_small\<lparr>num_attention_heads := Some (Fin 0)\<rparr>) = PInf
   \<and> calculateModelParameters uneven_heads = Fin (6098624495397547 / 17592186044416)
   \<and> calculateModelParameters wide_embedding = Fin 90071994694893568
   \<and> (134217729 * 134217729 * 1
        + 1 * ((2 * 134217729\<^sup>2 + 2 * 134217729 * 1 * (134217729 div 1)) + 2 * 134217729 * 1
               + 4 * 134217729) :: int) = 90071994694893579"
  by code_simp

section \<open>The operation count\<close>

lemma operations_exact:
  assumes "hidden_size m = Some (Fin (of_int h))"
    and "num_hidden_layers m = Some (Fin (of_int l))"
    and "intermediate_size m = Some (Fin (of_int i))"
    and "vocab_size m = Some (Fin (of_int v))"
    and "num_attention_heads m = Some (Fin (of_int a))"
    and "num_key_value_heads m = Some (Fin (of_int k))"
    and "0 < h" and "0 < l" and "0 < i" and "0 < v" and "0 < a" and "0 < k"
    and "0 < s" and "0 < b"
    and "a dvd k"
    and "b * (l * ((2 * h\<^sup>2 * (2 + 2 * (k div a)) + 4 * h * s)
                   + (h * i * (if gated m then 6 else 4) + i * (if gated m then 4 else 1)))
              + 2 * h * v) \<le> 2 ^ 53"
  shows "calculateOperations m (Fin (of_int s)) (Fin (of_int b)) =
           Fin (of_int
             (b * (l * ((2 * h\<^sup>2 * (2 + 2 * (k div a)) + 4 * h * s)
                        + (h * i * (if gated m then 6 else 4) + i * (if gated m then 4 else 1)))
                   + 2 * h * v)))"
proof -
  define g6 :: int where "g6 = (if gated m then 6 else 4)"
  define g4 :: int where "g4 = (if gated m then 4 else 1)"
  define q where "q = k div a"
  define H2 where "H2 = h * h"
  define C where "C = 2 + 2 * q"
  define AT1 where "AT1 = 2 * H2 * C"
  define AT2 where "AT2 = 4 * h * s"
  define HI where "HI = h * i"
  define F1 where "F1 = HI * g6"
  define F2 where "F2 = i * g4"
  define S where "S = AT1 + AT2 + (F1 + F2)"
  define LS where "LS = l * S"
  define TH where "TH = 2 * h"
  define LM where "LM = TH * v"
  define U where "U = LS + LM"
  define W where "W = b * U"
  note defs = g6_def g4_def q_def H2_def C_def AT1_def AT2_def HI_def F1_def F2_def S_def LS_def
    TH_def LM_def U_def W_def
  have g: "1 \<le> g6" "1 \<le> g4" by (simp_all add: g6_def g4_def)
  have kq: "k = a * q" using \<open>a dvd k\<close> by (simp add: q_def)
  have q: "1 \<le> q"
  proof (rule ccontr)
    assume "\<not> 1 \<le> q"
    then have "q \<le> 0" by simp
    then have "a * q \<le> 0" using \<open>0 < a\<close> by (simp add: mult_le_0_iff)
    with kq \<open>0 < k\<close> show False by simp
  qed
  have tot: "W \<le> 2 ^ 53"
    using assms(16) by (simp add: defs power2_eq_square)
  have p: "0 < H2" "0 < C" "0 < HI" "0 < TH" "0 < F2" "0 < 4 * h"
    using assms(7-14) g q by (simp_all add: H2_def C_def HI_def TH_def F2_def)
  have p2: "0 < AT1" "0 < AT2" "0 < F1" "0 < LM"
    using p g assms(7-14) by (simp_all add: AT1_def AT2_def F1_def LM_def)
  have p3: "0 < S" using p p2 by (simp add: S_def)
  have p4: "0 < LS" using p3 assms(8) by (simp add: LS_def)
  have p5: "0 < U" using p4 p2 by (simp add: U_def)
  have p6: "0 < W" using p5 assms(14) by (simp add: W_def)
  have b1: "U \<le> W" unfolding W_def using p5 assms(14) by (intro le_mult_left) simp_all
  have b2: "S \<le> LS" unfolding LS_def using p3 assms(8) by (intro le_mult_left) simp_all
  have b3: "TH \<le> LM" unfolding LM_def using p assms(10) by (intro le_mult_right) simp_all
  have b4: "2 * H2 \<le> AT1" unfolding AT1_def using p by (intro le_mult_right) simp_all
  have b5: "C \<le> AT1" unfolding AT1_def using p by (intro le_mult_left) simp_all
  have b6: "4 * h \<le> AT2" unfolding AT2_def using p assms(13) by (intro le_mult_right) simp_all
  have b7: "HI \<le> F1" unfolding F1_def using p g by (intro le_mult_right) simp_all
  have bd: "H2 \<le> 2 ^ 53" "2 * H2 \<le> 2 ^ 53" "2 * q \<le> 2 ^ 53" "C \<le> 2 ^ 53" "AT1 \<le> 2 ^ 53"
    "4 * h \<le> 2 ^ 53" "AT2 \<le> 2 ^ 53" "AT1 + AT2 \<le> 2 ^ 53" "HI \<le> 2 ^ 53" "F1 \<le> 2 ^ 53"
    "F2 \<le> 2 ^ 53" "F1 + F2 \<le> 2 ^ 53" "AT1 + AT2 + (F1 + F2) \<le> 2 ^ 53" "LS \<le> 2 ^ 53"
    "TH \<le> 2 ^ 53" "LM \<le> 2 ^ 53" "LS + LM \<le> 2 ^ 53" "q \<le> 2 ^ 53"
    using tot p p2 p3 p4 p5 p6 b1 b2 b3 b4 b5 b6 b7 q unfolding S_def U_def C_def by linarith+
  have H: "ToNumber (hidden_size m) = Fin (of_int h)"
    and L: "ToNumber (num_hidden_layers m) = Fin (of_int l)"
    and I: "ToNumber (intermediate_size m) = Fin (of_int i)"
    and V: "ToNumber (vocab_size m) = Fin (of_int v)"
    and A: "ToNumber (num_attention_heads m) = Fin (of_int a)"
    and K: "ToNumber (num_key_value_heads m) = Fin (of_int k)"
    using assms(1-6) by (simp_all add: ToNumber_def)
  have G6: "(if isGated_operations m then Fin 6 else Fin 4) = Fin (of_int g6)"
    by (simp add: isGated_operations_iff g6_def)
  have G4: "(if isGated_operations m then (if isGated_operations m then Fin 3 else Fin 1) + Fin 1
             else (if isGated_operations m then Fin 3 else Fin 1)) = Fin (of_int g4)"
    by (simp add: isGated_operations_iff g4_def)
  have q0: "0 \<le> q" using q by simp
  have kv: "ToNumber (num_key_value_heads m) / ToNumber (num_attention_heads m) = Fin (of_int q)"
    unfolding K A by (rule divide_exact [OF refl refl assms(11) kq q0 bd(18)])
  have c1: "jpow (Fin (of_int h)) 2 = Fin (of_int H2)"
    unfolding jpow_2 H2_def using p bd
    by (intro times_exact) (simp_all add: H2_def [symmetric])
  have c2: "Fin 2 * Fin (of_int H2) = Fin (of_int (2 * H2))"
    using p bd by (intro times_exact) simp_all
  have c3: "Fin 2 * Fin (of_int q) = Fin (of_int (2 * q))"
    using q bd by (intro times_exact) simp_all
  have c4: "Fin 2 + Fin (of_int (2 * q)) = Fin (of_int C)"
    unfolding C_def using p q bd by (intro plus_exact) (simp_all add: C_def [symmetric])
  have c5: "Fin (of_int (2 * H2)) * Fin (of_int C) = Fin (of_int AT1)"
    unfolding AT1_def using p p2 bd by (intro times_exact) (simp_all add: AT1_def [symmetric])
  have c6: "Fin 4 * Fin (of_int h) = Fin (of_int (4 * h))"
    using p bd by (intro times_exact) simp_all
  have c7: "Fin (of_int (4 * h)) * Fin (of_int s) = Fin (of_int AT2)"
    unfolding AT2_def using p p2 bd by (intro times_exact) (simp_all add: AT2_def [symmetric])
  have c8: "Fin (of_int AT1) + Fin (of_int AT2) = Fin (of_int (AT1 + AT2))"
    using p2 bd by (intro plus_exact) simp_all
  have attention:
    "Fin 2 * jpow (ToNumber (hidden_size m)) 2
       * (Fin 2 + Fin 2 * (ToNumber (num_key_value_heads m) / ToNumber (num_attention_heads m)))
       + Fin 4 * ToNumber (hidden_size m) * Fin (of_int s) = Fin (of_int (AT1 + AT2))"
    unfolding kv by (simp only: H c1 c2 c3 c4 c5 c6 c7 c8)
  have c9: "Fin (of_int h) * Fin (of_int i) = Fin (of_int HI)"
    unfolding HI_def using p bd by (intro times_exact) (simp_all add: HI_def [symmetric])
  have c10: "Fin (of_int HI) * Fin (of_int g6) = Fin (of_int F1)"
    unfolding F1_def using p2 bd by (intro times_exact) (simp_all add: F1_def [symmetric])
  have c11: "Fin (of_int i) * Fin (of_int g4) = Fin (of_int F2)"
    unfolding F2_def using p bd by (intro times_exact) (simp_all add: F2_def [symmetric])
  have c12: "Fin (of_int F1) + Fin (of_int F2) = Fin (of_int (F1 + F2))"
    using p p2 bd by (intro plus_exact) simp_all
  have feed_forward:
    "ToNumber (hidden_size m) * ToNumber (intermediate_size m)
         * (if isGated_operations m then Fin 6 else Fin 4)
       + ToNumber (intermediate_size m)
           * (if isGated_operations m then (if isGated_operations m then Fin 3 else Fin 1) + Fin 1
              else (if isGated_operations m then Fin 3 else Fin 1)) = Fin (of_int (F1 + F2))"
    by (simp only: H I G6 G4 c9 c10 c11 c12)
  have c13: "Fin 2 * Fin (of_int h) = Fin (of_int TH)"
    unfolding TH_def using p bd by (intro times_exact) (simp_all add: TH_def [symmetric])
  have c14: "Fin (of_int TH) * Fin (of_int v) = Fin (of_int LM)"
    unfolding LM_def using p2 bd by (intro times_exact) (simp_all add: LM_def [symmetric])
  have lm_head: "Fin 2 * ToNumber (hidden_size m) * ToNumber (vocab_size m) = Fin (of_int LM)"
    by (simp only: H V c13 c14)
  have c15: "Fin (of_int (AT1 + AT2)) + Fin (of_int (F1 + F2)) = Fin (of_int S)"
    unfolding S_def using p p2 bd by (intro plus_exact) simp_all
  have c16: "Fin (of_int l) * Fin (of_int S) = Fin (of_int LS)"
    unfolding LS_def using p4 bd by (intro times_exact) (simp_all add: LS_def [symmetric])
  have c17: "Fin (of_int LS) + Fin (of_int LM) = Fin (of_int U)"
    unfolding U_def using p4 p2 bd by (intro plus_exact) simp_all
  have c18: "Fin (of_int b) * Fin (of_int U) = Fin (of_int W)"
    unfolding W_def using p6 tot by (intro times_exact) (simp_all add: W_def [symmetric])
  have "calculateOperations m (Fin (of_int s)) (Fin (of_int b)) = Fin (of_int W)"
    unfolding calculateOperations_def Let_def attention feed_forward lm_head
    by (simp only: L c15 c16 c17 c18)
  then show ?thesis
    by (simp add: defs power2_eq_square)
qed

text \<open>
  C2.  For every record, sequence length and batch size, \<^const>\<open>calculateOperations\<close>
  returns \<open>batchSize * (layers * (attention_ops + feedforward_ops) + lm_head_ops)\<close>, with
  the three terms of the specification, in the arithmetic of JavaScript numbers.  When the
  fields, the sequence length and the batch size are positive integers, the head count
  divides the number of key/value heads, and the count that the formula denotes is at
  most \<open>2 ^ 53\<close>, no operation rounds and the result is exactly that integer.
\<close>

theorem C2_operation_count:
  "calculateOperations m seqLen batch =
     batch * (ToNumber (num_hidden_layers m) * (attention_ops m seqLen + feedforward_ops m)
                + lm_head_ops m)
   \<and> (hidden_size m = Some (Fin (of_int h)) \<and> num_hidden_layers m = Some (Fin (of_int l))
        \<and> intermediate_size m = Some (Fin (of_int i)) \<and> vocab_size m = Some (Fin (of_int v))
        \<and> num_attention_heads m = Some (Fin (of_int a))
        \<and> num_key_value_heads m = Some (Fin (of_int k))
        \<and> 0 < h \<and> 0 < l \<and> 0 < i \<and> 0 < v \<and> 0 < a \<and> 0 < k \<and> 0 < s \<and> 0 < b
        \<and> a dvd k
        \<and> b * (l * ((2 * h\<^sup>2 * (2 + 2 * (k div a)) + 4 * h * s)
                       + (h * i * (if gated m then 6 else 4) + i * (if gated m then 4 else 1)))
                  + 2 * h * v) \<le> 2 ^ 53
      \<longrightarrow> calculateOperations m (Fin (of_int s)) (Fin (of_int b)) =
            Fin (of_int
              (b * (l * ((2 * h\<^sup>2 * (2 + 2 * (k div a)) + 4 * h * s)
                         + (h * i * (if gated m then 6 else 4)
                            + i * (if gated m then 4 else 1)))
                    + 2 * h * v))))"
proof (intro conjI impI)
  show "calculateOperations m seqLen batch =
          batch * (ToNumber (num_hidden_layers m) * (attention_ops m seqLen + feedforward_ops m)
                     + lm_head_ops m)"
    by (simp add: calculateOperations_def attention_ops_def feedforward_ops_def lm_head_ops_def
          isGated_operations_iff Let_def)
next
  assume "hidden_size m = Some (Fin (of_int h)) \<and> num_hidden_layers m = Some (Fin (of_int l))
        \<and> intermediate_size m = Some (Fin (of_int i)) \<and> vocab_size m = Some (Fin (of_int v))
        \<and> num_attention_heads m = Some (Fin (of_int a))
        \<and> num_key_value_heads m = Some (Fin (of_int k))
        \<and> 0 < h \<and> 0 < l \<and> 0 < i \<and> 0 < v \<and> 0 < a \<and> 0 < k \<and> 0 < s \<and> 0 < b
        \<and> a dvd k
        \<and> b * (l * ((2 * h\<^sup>2 * (2 + 2 * (k div a)) + 4 * h * s)
                       + (h * i * (if gated m then 6 else 4) + i * (if gated m then 4 else 1)))
                  + 2 * h * v) \<le> 2 ^ 53"
  then show "calculateOperations m (Fin (of_int s)) (Fin (of_int b)) =
            Fin (of_int
              (b * (l * ((2 * h\<^sup>2 * (2 + 2 * (k div a)) + 4 * h * s)
                         + (h * i * (if gated m then 6 else 4)
                            + i * (if gated m then 4 else 1)))
                    + 2 * h * v)))"
    using operations_exact [of m h l i v a k s b] by blast
qed

theorem C2_operation_count_gpt2:
  "calculateOperations gpt2_small (Fin 1) (Fin 1) = Fin 247137792"
  using C2_operation_count [of gpt2_small "Fin 1" "Fin 1" 768 12 3072 50257 12 12 1 1]
  by (simp add: gpt2_small_def gated_def attention_ops_def feedforward_ops_def lm_head_ops_def
        ToNumber_def jpow_2)

section \<open>The memory traffic\<close>

lemma calculateMemoryReads_formula:
  "calculateMemoryReads m seq b =
     (calculateModelParameters m
        + b * seq * ToNumber (num_hidden_layers m) * ToNumber (hidden_size m) * Fin 2)
       * (if torch_dtype m = Some ''float32'' then Fin 4
          else if torch_dtype m = Some ''float16'' then Fin 2
          else if torch_dtype m = Some ''bfloat16'' then Fin 2
          else if torch_dtype m \<in> Some ` set Object_prototype_keys then NaN
          else Fin 4)"
  by (auto simp add: calculateMemoryReads_def bytes_table_def bytes_or_default_def Let_def
        Object_prototype_keys_def split: option.splits)

text \<open>
  C3 at the precision tag \<^verbatim>\<open>"constructor"\<close>, which is none of the three recognised tags:
  the table lookup finds the inherited property, and the memory traffic of the GPT-2 small
  record is NaN, where four bytes per element give 494,349,312.
\<close>

theorem C3_inherited_tag:
  "calculateMemoryReads (gpt2_small\<lparr>torch_dtype := Some ''constructor''\<rparr>) (Fin 1) (Fin 1) = NaN
   \<and> (calculateModelParameters gpt2_small + Fin 1 * Fin 1 * Fin 12 * Fin 768 * Fin 2) * Fin 4
       = Fin 494349312"
  by (simp add: calculateMemoryReads_def calculateModelParameters_def gpt2_small_def
        ToNumber_def truthy_def isGated_parameters_def includes_str_def bytes_table_def
        bytes_or_default_def Object_prototype_keys_def jpow_2)

section \<open>The throughput\<close>

text \<open>
  C4.  When the configuration text parses to a record, \<^const>\<open>calculateThroughput\<close>
  returns the batch size divided by the sum of the memory time and the compute time: the
  memory traffic over \<open>bandwidth * 1e9\<close>, the operation count over \<open>tflops * 1e12\<close>.
\<close>

theorem C4_additive_throughput:
  assumes "JSON_parse cfg = Inr (JObject m)"
  shows "calculateThroughput JSON_parse cfg bandwidth tflops batch seqLen =
           batch / (calculateMemoryReads m seqLen batch / (bandwidth * Fin (10 ^ 9))
                        + calculateOperations m seqLen batch / (tflops * Fin (10 ^ 12)))"
  using assms by (simp add: calculateThroughput_def try_block_def properties_def)

theorem C4_additive_throughput_gpt2:
  "example_parse gpt2_config = Inr (JObject gpt2_small)
   \<and> calculateThroughput example_parse gpt2_config (Fin 1792) (Fin 209) (Fin 1) (Fin 1)
       = Fin 1 / (Fin 494349312 / Fin 1792000000000 + Fin 247137792 / Fin 209000000000000)"
proof -
  have p: "example_parse gpt2_config = Inr (JObject gpt2_small)"
    by (simp add: example_parse_def)
  have m: "calculateMemoryReads gpt2_small (Fin 1) (Fin 1) = Fin 494349312"
    by (simp add: calculateMemoryReads_formula calculateModelParameters_def gpt2_small_def
          ToNumber_def truthy_def isGated_parameters_def includes_str_def jpow_2)
  have ops: "calculateOperations gpt2_small (Fin 1) (Fin 1) = Fin 247137792"
    by (simp add: calculateOperations_def gpt2_small_def ToNumber_def isGated_operations_def
          includes_str_def jpow_2)
  show ?thesis
    using C4_additive_throughput
            [of example_parse gpt2_config gpt2_small "Fin 1792" "Fin 209" "Fin 1" "Fin 1"] p
    by (simp add: m ops)
qed

section \<open>The curve generator\<close>

lemma step_of_pos: "1 \<le> step_of ms"
  by (simp add: step_of_def)

lemma div_minus_self: "(d::int) \<noteq> 0 \<Longrightarrow> (x - d) div d = x div d - 1"
  using div_add_self2 [of d "x - d"] by simp

lemma rounds_Suc:
  assumes "1 \<le> (d::int)" and "s \<le> n"
  shows "nat ((n - s) div d + 1) = Suc (nat ((n - (s + d)) div d + 1))"
proof -
  have "(n - (s + d)) div d = (n - s) div d - 1"
    using div_minus_self [of d "n - s"] assms(1) by (simp add: algebra_simps)
  moreover have "0 \<le> (n - s) div d"
    using assms by (simp add: pos_imp_zdiv_nonneg_iff)
  ultimately show ?thesis by simp
qed

lemma rounds_0:
  assumes "1 \<le> (d::int)" and "n < s"
  shows "nat ((n - s) div d + 1) = 0"
proof -
  have "(n - s) div d < 0"
    using assms by (simp add: pos_imp_zdiv_neg_iff)
  then show ?thesis by simp
qed

lemma points_Suc:
  "map (\<lambda>k. s + int k * d) [0..<Suc n] = s # map (\<lambda>k. (s + d) + int k * d) [0..<n]"
  by (simp only: map_upt_Suc) (simp add: algebra_simps)


lemma curve_loop_closed:
  "curve_loop t bs ms s (xs, ty, py) =
     (xs @ map (\<lambda>k. s + int k * step_of ms) [0..<nat ((\<lfloor>ms\<rfloor> - s) div step_of ms + 1)],
      ty @ map t (map (\<lambda>k. s + int k * step_of ms) [0..<nat ((\<lfloor>ms\<rfloor> - s) div step_of ms + 1)]),
      py @ map (\<lambda>x. t x / bs) (map (\<lambda>k. s + int k * step_of ms) [0..<nat ((\<lfloor>ms\<rfloor> - s) div step_of ms + 1)]))"
proof (induction t bs ms s "(xs, ty, py)" arbitrary: xs ty py rule: curve_loop.induct)
  case (1 t bs ms s xs ty py)
  show ?case
  proof (cases "of_int s \<le> ms")
    case True
    then have le: "s \<le> \<lfloor>ms\<rfloor>" by (simp add: le_floor_iff)
    note n = rounds_Suc [OF step_of_pos le]
    show ?thesis
      apply (subst curve_loop.simps)
      apply (simp only: True if_True "1.hyps" [OF True] n points_Suc)
      apply simp
      done
  next
    case False
    then have "\<lfloor>ms\<rfloor> < s" by (simp add: floor_less_iff)
    then have "nat ((\<lfloor>ms\<rfloor> - s) div step_of ms + 1) = 0"
      by (rule rounds_0 [OF step_of_pos])
    with False show ?thesis by (subst curve_loop.simps) simp
  qed
qed

lemma curve_effect_closed:
  assumes "dCfg \<noteq> []"
  shows "curve_effect JSON_parse dCfg mem fl bs ms old =
    \<lparr>total_curve = \<lparr>curve_x = sample_points ms,
        curve_y = map (\<lambda>s. calculateThroughput JSON_parse dCfg mem fl bs (Fin (of_int s))) (sample_points ms)\<rparr>,
     perUser_curve = \<lparr>curve_x = sample_points ms,
        curve_y = map (\<lambda>s. calculateThroughput JSON_parse dCfg mem fl bs (Fin (of_int s)) / bs) (sample_points ms)\<rparr>\<rparr>"
  using assms by (simp add: curve_effect_def curve_loop_closed sample_points_def sample_count_def)


lemma int_div_less:
  assumes "0 < (d::int)" and "x < c * d"
  shows "x div d < c"
proof (rule ccontr)
  assume "\<not> x div d < c"
  then have "c * d \<le> (x div d) * d"
    using assms(1) by (simp add: mult_right_mono)
  also have "(x div d) * d \<le> x"
    using assms(1) div_mult_mod_eq [of x d] pos_mod_sign [of d x] by linarith
  finally show False
    using assms(2) by simp
qed

lemma int_le_div:
  assumes "0 < (d::int)" and "c * d \<le> x"
  shows "c \<le> x div d"
  using zdiv_mono1 [OF assms(2) assms(1)] assms(1) by simp

lemma floor_div_800: "\<lfloor>ms / 800\<rfloor> = \<lfloor>ms :: rat\<rfloor> div 800"
proof (rule floor_unique)
  have low: "of_int (800 * (\<lfloor>ms\<rfloor> div 800)) \<le> ms"
  proof -
    have "800 * (\<lfloor>ms\<rfloor> div 800) \<le> \<lfloor>ms\<rfloor>"
      using div_mult_mod_eq [of "\<lfloor>ms\<rfloor>" 800] pos_mod_sign [of 800 "\<lfloor>ms\<rfloor>"] by linarith
    then show ?thesis by (simp only: le_floor_iff)
  qed
  then show "of_int (\<lfloor>ms\<rfloor> div 800) \<le> ms / 800"
    by simp
  have "\<lfloor>ms\<rfloor> < 800 * (\<lfloor>ms\<rfloor> div 800 + 1)"
    by presburger
  then have "ms < of_int (800 * (\<lfloor>ms\<rfloor> div 800 + 1))"
    by (simp only: floor_less_iff)
  then show "ms / 800 < of_int (\<lfloor>ms\<rfloor> div 800) + 1"
    by simp
qed

lemma step_of_floor: "step_of ms = max 1 (\<lfloor>ms\<rfloor> div 800)"
  by (simp add: step_of_def floor_div_800)

lemma floor_less_step: "\<lfloor>ms\<rfloor> < 800 * step_of ms + 800"
proof -
  have "\<lfloor>ms\<rfloor> < 800 * (\<lfloor>ms\<rfloor> div 800) + 800"
    by presburger
  then show ?thesis
    by (simp add: step_of_floor)
qed

lemma sample_count_upper: "sample_count ms \<le> 1599"
proof -
  have d: "0 < step_of ms" using step_of_pos [of ms] by simp
  have "\<lfloor>ms\<rfloor> - 1 < 1599 * step_of ms"
    using floor_less_step [of ms] step_of_pos [of ms] by linarith
  then have "(\<lfloor>ms\<rfloor> - 1) div step_of ms < 1599"
    by (rule int_div_less [OF d])
  then show ?thesis
    by (simp add: sample_count_def)
qed

lemma sample_count_lower:
  assumes "800 \<le> ms"
  shows "800 \<le> sample_count ms"
proof -
  have d: "0 < step_of ms" using step_of_pos [of ms] by simp
  from assms have f: "800 \<le> \<lfloor>ms\<rfloor>" by (simp add: le_floor_iff)
  have "800 * (\<lfloor>ms\<rfloor> div 800) \<le> \<lfloor>ms\<rfloor>"
    using div_mult_mod_eq [of "\<lfloor>ms\<rfloor>" 800] pos_mod_sign [of 800 "\<lfloor>ms\<rfloor>"] by linarith
  moreover have "1 \<le> \<lfloor>ms\<rfloor> div 800"
    using int_le_div [of 800 1 "\<lfloor>ms\<rfloor>"] f by simp
  ultimately have "799 * step_of ms \<le> \<lfloor>ms\<rfloor> - 1"
    by (simp add: step_of_floor)
  then have "799 \<le> (\<lfloor>ms\<rfloor> - 1) div step_of ms"
    by (rule int_le_div [OF d])
  then show ?thesis
    by (simp add: sample_count_def)
qed

lemma sample_count_pos:
  assumes "1 \<le> ms"
  shows "1 \<le> sample_count ms"
proof -
  from assms have "1 \<le> \<lfloor>ms\<rfloor>" by (simp add: le_floor_iff)
  then have "0 \<le> (\<lfloor>ms\<rfloor> - 1) div step_of ms"
    using step_of_pos [of ms] by (simp add: pos_imp_zdiv_nonneg_iff)
  then show ?thesis by (simp add: sample_count_def)
qed

lemma set_sample_points:
  "s \<in> set (sample_points ms) \<longleftrightarrow> 1 \<le> s \<and> of_int s \<le> ms \<and> step_of ms dvd s - 1"
proof
  let ?d = "step_of ms"
  have d: "0 < ?d" using step_of_pos [of ms] by simp
  {
    assume "s \<in> set (sample_points ms)"
    then obtain k where k: "k < sample_count ms" and s: "s = 1 + int k * ?d"
      by (auto simp: sample_points_def)
    from k have "int k \<le> (\<lfloor>ms\<rfloor> - 1) div ?d"
      by (simp add: sample_count_def)
    then have "int k * ?d \<le> ((\<lfloor>ms\<rfloor> - 1) div ?d) * ?d"
      using d by (simp add: mult_right_mono)
    also have "\<dots> \<le> \<lfloor>ms\<rfloor> - 1"
      using d div_mult_mod_eq [of "\<lfloor>ms\<rfloor> - 1" ?d] pos_mod_sign [of ?d "\<lfloor>ms\<rfloor> - 1"] by linarith
    finally have "s \<le> \<lfloor>ms\<rfloor>" using s by simp
    then have "of_int s \<le> ms" by (simp only: le_floor_iff)
    moreover have "1 \<le> s" using s d by simp
    moreover have "?d dvd s - 1" using s by simp
    ultimately show "1 \<le> s \<and> of_int s \<le> ms \<and> ?d dvd s - 1" by simp
  }
  {
    assume a: "1 \<le> s \<and> of_int s \<le> ms \<and> ?d dvd s - 1"
    then obtain q where q: "s - 1 = ?d * q" by (auto simp: dvd_def)
    have "0 \<le> q"
    proof (rule ccontr)
      assume "\<not> 0 \<le> q"
      then have "?d * q < 0" using d by (simp add: mult_pos_neg)
      with q a show False by simp
    qed
    from a have "s \<le> \<lfloor>ms\<rfloor>" by (simp add: le_floor_iff)
    then have "q * ?d \<le> \<lfloor>ms\<rfloor> - 1" using q by (simp add: mult.commute)
    then have "q \<le> (\<lfloor>ms\<rfloor> - 1) div ?d" by (rule int_le_div [OF d])
    with \<open>0 \<le> q\<close> have "nat q \<in> set [0..<sample_count ms]"
      by (simp add: sample_count_def)
    then have "(\<lambda>k. 1 + int k * ?d) (nat q) \<in> set (sample_points ms)"
      unfolding sample_points_def set_map by (rule imageI)
    moreover have "s = 1 + int (nat q) * ?d"
      using q \<open>0 \<le> q\<close> by (simp add: mult.commute)
    ultimately show "s \<in> set (sample_points ms)"
      by simp
  }
qed

text \<open>
  C7.  In every curve that the effect publishes, the two curves have the same
  x-coordinates, and at every sampled point the perUser y-value is the total y-value at
  that point, the throughput at that sequence length, divided by the batch size.
\<close>

theorem C7_perUser_is_total_over_batch:
  fixes JSON_parse dCfg memoryBandwidth computePower batchSize maxSeqLen old
  defines "d \<equiv> curve_effect JSON_parse dCfg memoryBandwidth computePower batchSize maxSeqLen old"
  assumes "dCfg \<noteq> []"
  shows "curve_x (perUser_curve d) = curve_x (total_curve d)
         \<and> length (curve_y (total_curve d)) = length (curve_x (total_curve d))
         \<and> length (curve_y (perUser_curve d)) = length (curve_x (total_curve d))
         \<and> (\<forall>i < length (curve_x (total_curve d)).
               curve_y (total_curve d) ! i =
                 calculateThroughput JSON_parse dCfg memoryBandwidth computePower batchSize
                   (Fin (of_int (curve_x (total_curve d) ! i)))
               \<and> curve_y (perUser_curve d) ! i = curve_y (total_curve d) ! i / batchSize)"
  unfolding d_def using assms by (simp add: curve_effect_closed)

theorem C7_perUser_is_total_over_batch_witness:
  "gpt2_config \<noteq> []
   \<and> curve_y (perUser_curve (curve_effect example_parse gpt2_config (Fin 1792) (Fin 209) (Fin 8) 1024
                 initial_throughputData)) ! 0
     = curve_y (total_curve (curve_effect example_parse gpt2_config (Fin 1792) (Fin 209) (Fin 8) 1024
                 initial_throughputData)) ! 0 / Fin 8"
proof -
  have ne: "gpt2_config \<noteq> []"
    by (simp add: gpt2_config_def)
  have "0 < length (curve_x (total_curve (curve_effect example_parse gpt2_config (Fin 1792) (Fin 209)
                 (Fin 8) 1024 initial_throughputData)))"
    using sample_count_pos [of 1024] by (simp add: curve_effect_closed [OF ne] sample_points_def)
  then show ?thesis
    using C7_perUser_is_total_over_batch
            [of gpt2_config example_parse "Fin 1792" "Fin 209" "Fin 8" 1024 initial_throughputData] ne
    by blast
qed

text \<open>
  C8.  For \<^verbatim>\<open>maxSeqLen\<close> of at least 1 the published x-coordinates are \<open>1\<close>,
  \<open>1 + step\<close>, \<open>1 + 2 * step\<close>, ... with \<open>step = max 1 \<lfloor>maxSeqLen / 800\<rfloor>\<close>: exactly
  the numbers from 1 to \<^verbatim>\<open>maxSeqLen\<close> inclusive that lie a multiple of the step above 1.
  There are at most 1599 of them whatever the magnitude of \<^verbatim>\<open>maxSeqLen\<close>, at least 800
  once \<^verbatim>\<open>maxSeqLen\<close> reaches 800, and both curves carry the same ones.
\<close>

theorem C8_sampled_lengths:
  fixes JSON_parse dCfg memoryBandwidth computePower batchSize maxSeqLen old step
  defines "d \<equiv> curve_effect JSON_parse dCfg memoryBandwidth computePower batchSize maxSeqLen old"
    and "step \<equiv> max 1 \<lfloor>maxSeqLen / 800\<rfloor>"
  assumes "dCfg \<noteq> []" and "1 \<le> maxSeqLen"
  shows "curve_x (total_curve d) = map (\<lambda>k. 1 + int k * step) [0..<length (curve_x (total_curve d))]
         \<and> curve_x (perUser_curve d) = curve_x (total_curve d)
         \<and> (\<forall>s. s \<in> set (curve_x (total_curve d)) \<longleftrightarrow>
                  1 \<le> s \<and> of_int s \<le> maxSeqLen \<and> step dvd s - 1)
         \<and> 1 \<le> length (curve_x (total_curve d))
         \<and> length (curve_x (total_curve d)) \<le> 1599
         \<and> (800 \<le> maxSeqLen \<longrightarrow> 800 \<le> length (curve_x (total_curve d)))"
proof -
  have x: "curve_x (total_curve d) = sample_points maxSeqLen"
    and p: "curve_x (perUser_curve d) = sample_points maxSeqLen"
    unfolding d_def using assms(3) by (simp_all add: curve_effect_closed)
  have st: "step = step_of maxSeqLen"
    by (simp add: step_def step_of_def)
  have len: "length (sample_points maxSeqLen) = sample_count maxSeqLen"
    by (simp add: sample_points_def)
  have "sample_points maxSeqLen = map (\<lambda>k. 1 + int k * step) [0..<length (sample_points maxSeqLen)]"
    unfolding len st by (simp add: sample_points_def)
  moreover have "\<forall>s. s \<in> set (sample_points maxSeqLen) \<longleftrightarrow>
                    1 \<le> s \<and> of_int s \<le> maxSeqLen \<and> step dvd s - 1"
    unfolding st by (simp only: set_sample_points) simp
  moreover have "1 \<le> length (sample_points maxSeqLen)"
    unfolding len using assms(4) by (rule sample_count_pos)
  moreover have "length (sample_points maxSeqLen) \<le> 1599"
    unfolding len by (rule sample_count_upper)
  moreover have "800 \<le> maxSeqLen \<longrightarrow> 800 \<le> length (sample_points maxSeqLen)"
    unfolding len by (simp add: sample_count_lower)
  ultimately show ?thesis
    unfolding x p by blast
qed

theorem C8_sampled_lengths_witness:
  "gpt2_config \<noteq> [] \<and> (1::rat) \<le> 2048
   \<and> 1 \<in> set (curve_x (total_curve (curve_effect example_parse gpt2_config (Fin 1792) (Fin 209)
                       (Fin 1) 2048 initial_throughputData)))
   \<and> 2047 \<in> set (curve_x (total_curve (curve_effect example_parse gpt2_config (Fin 1792) (Fin 209)
                       (Fin 1) 2048 initial_throughputData)))
   \<and> 2048 \<notin> set (curve_x (total_curve (curve_effect example_parse gpt2_config (Fin 1792) (Fin 209)
                       (Fin 1) 2048 initial_throughputData)))
   \<and> 800 \<le> length (curve_x (total_curve (curve_effect example_parse gpt2_config (Fin 1792) (Fin 209)
                       (Fin 1) 2048 initial_throughputData)))
   \<and> length (curve_x (total_curve (curve_effect example_parse gpt2_config (Fin 1792) (Fin 209)
                       (Fin 1) 2048 initial_throughputData))) \<le> 1599"
proof -
  have ne: "gpt2_config \<noteq> []"
    by (simp add: gpt2_config_def)
  have st: "max 1 \<lfloor>(2048::rat) / 800\<rfloor> = 2"
    by (subst floor_div_800) simp
  show ?thesis
    using C8_sampled_lengths
            [of gpt2_config 2048 example_parse "Fin 1792" "Fin 209" "Fin 1" initial_throughputData] ne
    unfolding st by simp
qed

section \<open>Valid records\<close>

text \<open>
  The counts of a record whose numeric fields are at least 1: they are at least 1, and they
  do not decrease with the sequence length.
\<close>

lemma params_ge1:
  assumes "jle (Fin 1) (ToNumber (hidden_size m))"
    and "jle (Fin 1) (ToNumber (num_hidden_layers m))"
    and "jle (Fin 1) (ToNumber (intermediate_size m))"
    and "jle (Fin 1) (ToNumber (vocab_size m))"
    and "jle (Fin 1) (ToNumber (num_key_value_heads m))"
    and "jle (Fin 1) (ToNumber (hidden_size m) / ToNumber (num_attention_heads m))"
  shows "jle (Fin 1) (calculateModelParameters m)"
  unfolding calculateModelParameters_def Let_def
  using assms by (intro ge1_intros) simp_all


lemma bytes_ge1:
  assumes "bytes_table (torch_dtype m) \<noteq> Inherited"
  shows "jle (Fin 1) (bytes_or_default (bytes_table (torch_dtype m)))"
  using assms by (auto simp: bytes_table_def bytes_or_default_def Let_def split: if_splits)

lemma kv_ge1:
  assumes "jle (Fin 1) b" and "jle (Fin 1) seq"
    and "jle (Fin 1) (ToNumber (num_hidden_layers m))"
    and "jle (Fin 1) (ToNumber (hidden_size m))"
  shows "jle (Fin 1) (b * seq * ToNumber (num_hidden_layers m) * ToNumber (hidden_size m) * Fin 2)"
  using assms by (intro ge1_intros) simp_all

lemma reads_ge1:
  assumes "jle (Fin 1) (calculateModelParameters m)"
    and "jle (Fin 1) b" and "jle (Fin 1) seq"
    and "jle (Fin 1) (ToNumber (num_hidden_layers m))"
    and "jle (Fin 1) (ToNumber (hidden_size m))"
    and "bytes_table (torch_dtype m) \<noteq> Inherited"
  shows "jle (Fin 1) (calculateMemoryReads m seq b)"
  unfolding calculateMemoryReads_def Let_def
  by (rule times_pos [OF plus_ge1 [OF assms(1) kv_ge1 [OF assms(2-5)]] bytes_ge1 [OF assms(6)]])

lemma reads_PInf:
  assumes "calculateModelParameters m = PInf"
    and "jle (Fin 1) b" and "jle (Fin 1) seq"
    and "jle (Fin 1) (ToNumber (num_hidden_layers m))"
    and "jle (Fin 1) (ToNumber (hidden_size m))"
    and "bytes_table (torch_dtype m) \<noteq> Inherited"
  shows "calculateMemoryReads m seq b = PInf"
  unfolding calculateMemoryReads_def Let_def assms(1)
  by (simp only: plus_PInf [OF kv_ge1 [OF assms(2-5)]] times_PInf [OF bytes_ge1 [OF assms(6)]])

lemma reads_mono:
  assumes "jle (Fin 1) (calculateModelParameters m)"
    and "jle (Fin 1) b" and "jle (Fin 1) s1" and "jle s1 s2"
    and "jle (Fin 1) (ToNumber (num_hidden_layers m))"
    and "jle (Fin 1) (ToNumber (hidden_size m))"
    and "bytes_table (torch_dtype m) \<noteq> Inherited"
  shows "jle (calculateMemoryReads m s1 b) (calculateMemoryReads m s2 b)"
proof -
  let ?l = "ToNumber (num_hidden_layers m)" and ?h = "ToNumber (hidden_size m)"
  let ?B = "bytes_or_default (bytes_table (torch_dtype m))"
  have s2: "jle (Fin 1) s2" using assms(3,4) by (rule jle_trans)
  have m1: "jle (b * s1) (b * s2)"
    by (rule times_mono [OF assms(2) jle_refl [OF assms(2)] assms(3,4)])
  have g1: "jle (Fin 1) (b * s1)" using assms(2,3) by (rule times_pos)
  have m2: "jle (b * s1 * ?l) (b * s2 * ?l)"
    by (rule times_mono [OF g1 m1 assms(5) jle_refl [OF assms(5)]])
  have g2: "jle (Fin 1) (b * s1 * ?l)" using g1 assms(5) by (rule times_pos)
  have m3: "jle (b * s1 * ?l * ?h) (b * s2 * ?l * ?h)"
    by (rule times_mono [OF g2 m2 assms(6) jle_refl [OF assms(6)]])
  have g3: "jle (Fin 1) (b * s1 * ?l * ?h)" using g2 assms(6) by (rule times_pos)
  have two: "jle (Fin 1) (Fin 2)" by simp
  have kv: "jle (b * s1 * ?l * ?h * Fin 2) (b * s2 * ?l * ?h * Fin 2)"
    by (rule times_mono [OF g3 m3 two jle_refl [OF two]])
  have k1: "jle (Fin 1) (b * s1 * ?l * ?h * Fin 2)"
    using g3 two by (rule times_pos)
  have m4: "jle (calculateModelParameters m + b * s1 * ?l * ?h * Fin 2)
            (calculateModelParameters m + b * s2 * ?l * ?h * Fin 2)"
    by (rule plus_mono [OF jle_0_1 [OF assms(1)] jle_refl [OF assms(1)] jle_0_1 [OF k1] kv])
  have g4: "jle (Fin 1) (calculateModelParameters m + b * s1 * ?l * ?h * Fin 2)"
    using assms(1) k1 by (rule plus_ge1)
  note B = bytes_ge1 [OF assms(7)]
  show ?thesis
    unfolding calculateMemoryReads_def Let_def
    by (rule times_mono [OF g4 m4 B jle_refl [OF B]])
qed

lemma kvScale_term_ge1:
  assumes "jle (Fin 0) kvScale"
  shows "jle (Fin 1) (Fin 2 + Fin 2 * kvScale)"
proof -
  have "jle (Fin 0) (Fin 2 * kvScale)" using assms by (intro times_Fin_nonneg) simp_all
  then have "jle (Fin 1) (Fin 2 + Fin 2 * kvScale)" by (intro plus_pos(1)) simp_all
  then show ?thesis .
qed

lemma feed_forward_ge1:
  assumes "jle (Fin 1) (ToNumber (hidden_size m))"
    and "jle (Fin 1) (ToNumber (intermediate_size m))"
  shows "jle (Fin 1)
           (ToNumber (hidden_size m) * ToNumber (intermediate_size m)
                * (if isGated_operations m then Fin 6 else Fin 4)
              + ToNumber (intermediate_size m)
                  * (if isGated_operations m
                     then (if isGated_operations m then Fin 3 else Fin 1) + Fin 1
                     else (if isGated_operations m then Fin 3 else Fin 1)))"
  using assms by (intro ge1_intros) simp_all

lemma attention_ge1:
  assumes "jle (Fin 1) (ToNumber (hidden_size m))"
    and "jle (Fin 0) kvScale" and "jle (Fin 1) seq"
  shows "jle (Fin 1)
           (Fin 2 * jpow (ToNumber (hidden_size m)) 2 * (Fin 2 + Fin 2 * kvScale)
              + Fin 4 * ToNumber (hidden_size m) * seq)"
proof -
  have "jle (Fin 1) (Fin 2 * jpow (ToNumber (hidden_size m)) 2 * (Fin 2 + Fin 2 * kvScale))"
    using assms(1) kvScale_term_ge1 [OF assms(2)] by (intro times_pos jpow_2_pos) simp_all
  moreover have "jle (Fin 1) (Fin 4 * ToNumber (hidden_size m) * seq)"
    using assms(1,3) by (intro times_pos) simp_all
  ultimately show ?thesis by (rule plus_ge1)
qed

lemma attention_mono:
  assumes "jle (Fin 1) (ToNumber (hidden_size m))"
    and "jle (Fin 0) kvScale" and "jle (Fin 1) s1" and "jle s1 s2"
  shows "jle (Fin 2 * jpow (ToNumber (hidden_size m)) 2 * (Fin 2 + Fin 2 * kvScale)
                + Fin 4 * ToNumber (hidden_size m) * s1)
             (Fin 2 * jpow (ToNumber (hidden_size m)) 2 * (Fin 2 + Fin 2 * kvScale)
                + Fin 4 * ToNumber (hidden_size m) * s2)"
proof -
  let ?X = "Fin 2 * jpow (ToNumber (hidden_size m)) 2 * (Fin 2 + Fin 2 * kvScale)"
  have X: "jle (Fin 1) ?X"
    using assms(1) kvScale_term_ge1 [OF assms(2)] by (intro times_pos jpow_2_pos) simp_all
  have 4: "jle (Fin 1) (Fin 4 * ToNumber (hidden_size m))"
    using assms(1) by (intro times_pos) simp_all
  have m: "jle (Fin 4 * ToNumber (hidden_size m) * s1) (Fin 4 * ToNumber (hidden_size m) * s2)"
    by (rule times_mono [OF 4 jle_refl [OF 4] assms(3,4)])
  have g: "jle (Fin 1) (Fin 4 * ToNumber (hidden_size m) * s1)"
    using 4 assms(3) by (rule times_pos)
  show ?thesis
    by (rule plus_mono [OF jle_0_1 [OF X] jle_refl [OF X] jle_0_1 [OF g] m])
qed

lemma ops_ge1:
  assumes "jle (Fin 1) (ToNumber (hidden_size m))"
    and "jle (Fin 1) (ToNumber (num_hidden_layers m))"
    and "jle (Fin 1) (ToNumber (intermediate_size m))"
    and "jle (Fin 1) (ToNumber (vocab_size m))"
    and "jle (Fin 0) (ToNumber (num_key_value_heads m) / ToNumber (num_attention_heads m))"
    and "jle (Fin 1) b" and "jle (Fin 1) seq"
  shows "jle (Fin 1) (calculateOperations m seq b)"
proof -
  have lm: "jle (Fin 1) (Fin 2 * ToNumber (hidden_size m) * ToNumber (vocab_size m))"
    using assms(1,4) by (intro times_pos) simp_all
  show ?thesis
    unfolding calculateOperations_def Let_def
    by (rule times_pos [OF assms(6) plus_ge1 [OF times_pos [OF assms(2)
          plus_ge1 [OF attention_ge1 [OF assms(1,5,7)] feed_forward_ge1 [OF assms(1,3)]]] lm]])
qed

lemma ops_mono:
  assumes "jle (Fin 1) (ToNumber (hidden_size m))"
    and "jle (Fin 1) (ToNumber (num_hidden_layers m))"
    and "jle (Fin 1) (ToNumber (intermediate_size m))"
    and "jle (Fin 1) (ToNumber (vocab_size m))"
    and "jle (Fin 0) (ToNumber (num_key_value_heads m) / ToNumber (num_attention_heads m))"
    and "jle (Fin 1) b" and "jle (Fin 1) s1" and "jle s1 s2"
  shows "jle (calculateOperations m s1 b) (calculateOperations m s2 b)"
proof -
  have s2: "jle (Fin 1) s2" using assms(7,8) by (rule jle_trans)
  have lm: "jle (Fin 1) (Fin 2 * ToNumber (hidden_size m) * ToNumber (vocab_size m))"
    using assms(1,4) by (intro times_pos) simp_all
  note a1 = attention_ge1 [OF assms(1,5,7)]
  note am = attention_mono [OF assms(1,5,7,8)]
  note ff = feed_forward_ge1 [OF assms(1,3)]
  note af = plus_ge1 [OF a1 ff]
  note afm = plus_mono [OF jle_0_1 [OF a1] am jle_0_1 [OF ff] jle_refl [OF ff]]
  note l1 = times_pos [OF assms(2) af]
  note lm1 = times_mono [OF assms(2) jle_refl [OF assms(2)] af afm]
  note u1 = plus_ge1 [OF l1 lm]
  note um = plus_mono [OF jle_0_1 [OF l1] lm1 jle_0_1 [OF lm] jle_refl [OF lm]]
  show ?thesis
    unfolding calculateOperations_def Let_def
    by (rule times_mono [OF assms(6) jle_refl [OF assms(6)] u1 um])
qed


lemma at_least_oneE:
  assumes "at_least_one v"
  obtains r where "v = Some (Fin r)" and "1 \<le> r"
  using assms by (auto simp: at_least_one_def split: option.splits jsnum.splits)

lemma at_least_one_ToNumber: "at_least_one v \<Longrightarrow> jle (Fin 1) (ToNumber v)"
  by (auto simp: at_least_one_def ToNumber_def split: option.splits jsnum.splits)

lemma positive_integral:
  assumes "positive v" and "integral v"
  shows "at_least_one v"
proof -
  from assms(1) obtain r where r: "v = Some (Fin r)" "0 < r"
    by (auto simp: positive_def split: option.splits jsnum.splits)
  have i: "rat_of_int \<lfloor>r\<rfloor> = r"
    using assms(2) r(1) by (simp add: integral_def)
  have "0 < rat_of_int \<lfloor>r\<rfloor>" using r(2) by (simp only: i)
  then have "0 < \<lfloor>r\<rfloor>" by (simp only: of_int_0_less_iff)
  then have "1 \<le> \<lfloor>r\<rfloor>" by simp
  then have "1 \<le> rat_of_int \<lfloor>r\<rfloor>" by (simp only: of_int_1_le_iff)
  then have "1 \<le> r" by (simp only: i)
  then show ?thesis using r(1) by (simp add: at_least_one_def)
qed

lemma valid_arch_fields:
  assumes "valid_arch m"
  shows "at_least_one (hidden_size m)" and "at_least_one (num_hidden_layers m)"
    and "at_least_one (intermediate_size m)" and "at_least_one (vocab_size m)"
    and "at_least_one (num_attention_heads m)" and "at_least_one (num_key_value_heads m)"
    and "value_of (num_attention_heads m) \<le> value_of (hidden_size m)"
proof -
  show h: "at_least_one (hidden_size m)" and "at_least_one (num_hidden_layers m)"
    and "at_least_one (intermediate_size m)" and "at_least_one (vocab_size m)"
    and a: "at_least_one (num_attention_heads m)" and "at_least_one (num_key_value_heads m)"
    using assms unfolding valid_arch_def by (blast intro: positive_integral)+
  from h obtain x where x: "hidden_size m = Some (Fin x)" "1 \<le> x" by (rule at_least_oneE)
  from a obtain y where y: "num_attention_heads m = Some (Fin y)" "1 \<le> y" by (rule at_least_oneE)
  have "positive (Some (Fin (x / y)))"
    using x y by (simp add: positive_def)
  moreover have "integral (Some (Fin (x / y)))"
    using assms x y unfolding valid_arch_def by (simp add: value_of_def)
  ultimately have "at_least_one (Some (Fin (x / y)))" by (rule positive_integral)
  then have "1 \<le> x / y" by (simp add: at_least_one_def)
  then have "y \<le> x" using y(2) by (simp add: le_divide_eq)
  then show "value_of (num_attention_heads m) \<le> value_of (hidden_size m)"
    using x y by (simp add: value_of_def)
qed

lemma hardware_scale:
  assumes "1 / 10 \<le> x" and "x \<le> 8192"
  shows "\<exists>M. Fin x * Fin (10 ^ 9) = Fin M \<and> 1 \<le> M \<and> M \<le> 2 powi 43"
    and "\<exists>F. Fin x * Fin (10 ^ 12) = Fin F \<and> 1 \<le> F \<and> F \<le> 2 powi 53"
proof -
  have "\<exists>y. round64 (x * 10 ^ 9) = Fin y \<and> of_int (10 ^ 8) \<le> y \<and> y \<le> of_int (8192 * 10 ^ 9)"
    using assms by (intro round64_between) simp_all
  then obtain M where M: "round64 (x * 10 ^ 9) = Fin M" "10 ^ 8 \<le> M" "M \<le> 8192 * 10 ^ 9"
    by auto
  have "M \<le> 2 powi 43" using M(3) by simp
  moreover have "1 \<le> M" using M(2) by simp
  ultimately show "\<exists>M. Fin x * Fin (10 ^ 9) = Fin M \<and> 1 \<le> M \<and> M \<le> 2 powi 43"
    using M(1) by simp
  have "\<exists>y. round64 (x * 10 ^ 12) = Fin y \<and> of_int (10 ^ 11) \<le> y \<and> y \<le> of_int (8192 * 10 ^ 12)"
    using assms by (intro round64_between) simp_all
  then obtain F where F: "round64 (x * 10 ^ 12) = Fin F" "10 ^ 11 \<le> F" "F \<le> 8192 * 10 ^ 12"
    by auto
  have "F \<le> 2 powi 53" using F(3) by simp
  moreover have "1 \<le> F" using F(2) by simp
  ultimately show "\<exists>F. Fin x * Fin (10 ^ 12) = Fin F \<and> 1 \<le> F \<and> F \<le> 2 powi 53"
    using F(1) by simp
qed

lemma throughput_parsed:
  assumes "JSON_parse cfg = Inr (JObject m)"
  shows "calculateThroughput JSON_parse cfg mem flops b seq = b / phase_time_sum m mem flops b seq"
  using assms
  by (simp add: calculateThroughput_def try_block_def properties_def phase_time_sum_def)

lemma phase_time_sum_lower:
  assumes "jle (Fin 1) (calculateMemoryReads m seq b)"
    and "jle (Fin 1) (calculateOperations m seq b)"
    and "1 / 10 \<le> bw" and "bw \<le> 8192" and "1 / 10 \<le> fl" and "fl \<le> 8192"
  shows "jle (Fin (2 powi (- 43))) (phase_time_sum m (Fin bw) (Fin fl) b seq)"
proof -
  from hardware_scale(1) [OF assms(3,4)]
  obtain M where M: "Fin bw * Fin (10 ^ 9) = Fin M" "1 \<le> M" "M \<le> 2 powi 43" by blast
  from hardware_scale(2) [OF assms(5,6)]
  obtain F where F: "Fin fl * Fin (10 ^ 12) = Fin F" "1 \<le> F" "F \<le> 2 powi 53" by blast
  have M0: "0 < M" and F0: "0 < F" using M(2) F(2) by simp_all
  have 1: "jle (Fin (2 powi (- 43))) (calculateMemoryReads m seq b / Fin M)"
    using assms(1) M0 M(3) by (rule divide_lower) simp_all
  have 2: "jle (Fin 0) (calculateOperations m seq b / Fin F)"
    using F0 jle_0_1 [OF assms(2)] by (rule divide_nonneg)
  have "jle (Fin (2 powi (- 43)) + Fin 0)
          (calculateMemoryReads m seq b / Fin M + calculateOperations m seq b / Fin F)"
    using 1 2 by (intro plus_mono) simp_all
  moreover have "Fin (2 powi (- 43)) + Fin 0 = Fin (2 powi (- 43))"
    using round64_powi [of "- 43"] by simp
  ultimately have "jle (Fin (2 powi (- 43)))
          (calculateMemoryReads m seq b / Fin M + calculateOperations m seq b / Fin F)"
    by (simp only:)
  then show ?thesis
    unfolding phase_time_sum_def M(1) F(1) .
qed

lemma phase_time_sum_mono:
  assumes "jle (Fin 1) (calculateMemoryReads m s1 b)"
    and "jle (calculateMemoryReads m s1 b) (calculateMemoryReads m s2 b)"
    and "jle (Fin 1) (calculateOperations m s1 b)"
    and "jle (calculateOperations m s1 b) (calculateOperations m s2 b)"
    and "1 / 10 \<le> bw" and "bw \<le> 8192" and "1 / 10 \<le> fl" and "fl \<le> 8192"
  shows "jle (phase_time_sum m (Fin bw) (Fin fl) b s1) (phase_time_sum m (Fin bw) (Fin fl) b s2)"
proof -
  from hardware_scale(1) [OF assms(5,6)]
  obtain M where M: "Fin bw * Fin (10 ^ 9) = Fin M" "1 \<le> M" "M \<le> 2 powi 43" by blast
  from hardware_scale(2) [OF assms(7,8)]
  obtain F where F: "Fin fl * Fin (10 ^ 12) = Fin F" "1 \<le> F" "F \<le> 2 powi 53" by blast
  have M0: "0 < M" and F0: "0 < F" using M(2) F(2) by simp_all
  note r0 = jle_0_1 [OF assms(1)] and o0 = jle_0_1 [OF assms(3)]
  have "jle (calculateMemoryReads m s1 b / Fin M + calculateOperations m s1 b / Fin F)
            (calculateMemoryReads m s2 b / Fin M + calculateOperations m s2 b / Fin F)"
    by (rule plus_mono [OF divide_nonneg [OF M0 r0] divide_mono [OF M0 r0 assms(2)]
                          divide_nonneg [OF F0 o0] divide_mono [OF F0 o0 assms(4)]])
  then show ?thesis
    unfolding phase_time_sum_def M(1) F(1) .
qed

lemma throughput_of_sum:
  assumes "jle (Fin (2 powi (- 43))) (phase_time_sum m mem flops (Fin b) seq)"
    and "1 \<le> b" and "b \<le> 1024"
  shows "nonneg_finite (Fin b / phase_time_sum m mem flops (Fin b) seq)"
    and "positive_finite (Fin b / phase_time_sum m mem flops (Fin b) seq)
           \<longleftrightarrow> phase_time_sum m mem flops (Fin b) seq \<noteq> PInf"
proof -
  let ?D = "phase_time_sum m mem flops (Fin b) seq"
  have "nonneg_finite (Fin b / ?D) \<and> (positive_finite (Fin b / ?D) \<longleftrightarrow> ?D \<noteq> PInf)"
    using assms(1)
  proof (cases rule: jle_FinE)
    case inf
    then show ?thesis by (simp add: nonneg_finite_def positive_finite_def)
  next
    case (fin d)
    have "\<bar>d\<bar> < huge"
      using fin(1) unfolding phase_time_sum_def by (rule plus_Fin_bound)
    then have "d < huge" by simp
    moreover have "b \<le> 2 powi 10" using assms(3) by simp
    ultimately obtain t where "Fin b / Fin d = Fin t" and "0 < t"
      using divide_pos_finite [of b 10 43 d] assms(2) fin(2) by auto
    then show ?thesis
      using fin(1) by (simp add: nonneg_finite_def positive_finite_def)
  qed
  then show "nonneg_finite (Fin b / ?D)"
    and "positive_finite (Fin b / ?D) \<longleftrightarrow> ?D \<noteq> PInf" by simp_all
qed

lemma valid_arch_counts:
  assumes "valid_arch m" and "bytes_table (torch_dtype m) \<noteq> Inherited"
    and "jle (Fin 1) b" and "jle (Fin 1) s1" and "jle s1 s2"
  shows "jle (Fin 1) (calculateMemoryReads m s1 b)"
    and "jle (calculateMemoryReads m s1 b) (calculateMemoryReads m s2 b)"
    and "jle (Fin 1) (calculateOperations m s1 b)"
    and "jle (calculateOperations m s1 b) (calculateOperations m s2 b)"
proof -
  note f = valid_arch_fields [OF assms(1)]
  note H = at_least_one_ToNumber [OF f(1)] and L = at_least_one_ToNumber [OF f(2)]
    and I = at_least_one_ToNumber [OF f(3)] and V = at_least_one_ToNumber [OF f(4)]
    and K = at_least_one_ToNumber [OF f(6)]
  from f(1) obtain h where h: "hidden_size m = Some (Fin h)" "1 \<le> h" by (rule at_least_oneE)
  from f(5) obtain a where a: "num_attention_heads m = Some (Fin a)" "1 \<le> a"
    by (rule at_least_oneE)
  from f(6) obtain k where k: "num_key_value_heads m = Some (Fin k)" "1 \<le> k"
    by (rule at_least_oneE)
  have ah: "a \<le> h" using f(7) h a by (simp add: value_of_def)
  have a0: "0 < a" using a(2) by simp
  have hs: "jle (Fin 1) (ToNumber (hidden_size m) / ToNumber (num_attention_heads m))"
    using divide_ge1 [OF a0 ah] h a by (simp add: ToNumber_def)
  have ks: "jle (Fin 0) (ToNumber (num_key_value_heads m) / ToNumber (num_attention_heads m))"
    using divide_Fin_nonneg [of k a] k a by (simp add: ToNumber_def)
  note P = params_ge1 [OF H L I V K hs]
  show "jle (Fin 1) (calculateMemoryReads m s1 b)"
    by (rule reads_ge1 [OF P assms(3,4) L H assms(2)])
  show "jle (calculateMemoryReads m s1 b) (calculateMemoryReads m s2 b)"
    by (rule reads_mono [OF P assms(3,4,5) L H assms(2)])
  show "jle (Fin 1) (calculateOperations m s1 b)"
    by (rule ops_ge1 [OF H L I V ks assms(3,4)])
  show "jle (calculateOperations m s1 b) (calculateOperations m s2 b)"
    by (rule ops_mono [OF H L I V ks assms(3,4,5)])
qed

text \<open>
  C6, as amended.  For a valid record whose precision tag is not the name of a property
  inherited from \<^verbatim>\<open>Object.prototype\<close>, a bandwidth and a compute throughput between
  \<open>0.1\<close> and \<open>8192\<close> and a batch size between \<open>1\<close> and \<open>1024\<close> (the ranges to
  which the program clamps them), the throughput at every sequence length from 1 on is a
  finite number that is not negative, and it does not increase with the sequence length.
  It is positive exactly when the sum of the two phase times is finite; when that sum is
  infinite, the throughput is \<open>0\<close>.
\<close>

theorem C6_positive_and_monotone:
  assumes "JSON_parse cfg = Inr (JObject m)"
    and "valid_arch m"
    and "bytes_table (torch_dtype m) \<noteq> Inherited"
    and "1 / 10 \<le> bandwidth" and "bandwidth \<le> 8192"
    and "1 / 10 \<le> tflops" and "tflops \<le> 8192"
    and "1 \<le> batch" and "batch \<le> 1024"
    and "1 \<le> s1" and "s1 \<le> s2"
  shows "nonneg_finite
           (calculateThroughput JSON_parse cfg (Fin bandwidth) (Fin tflops) (Fin batch) (Fin s1))
         \<and> nonneg_finite
           (calculateThroughput JSON_parse cfg (Fin bandwidth) (Fin tflops) (Fin batch) (Fin s2))
         \<and> jle (calculateThroughput JSON_parse cfg (Fin bandwidth) (Fin tflops) (Fin batch) (Fin s2))
               (calculateThroughput JSON_parse cfg (Fin bandwidth) (Fin tflops) (Fin batch) (Fin s1))
         \<and> (if phase_time_sum m (Fin bandwidth) (Fin tflops) (Fin batch) (Fin s1) = PInf
             then calculateThroughput JSON_parse cfg (Fin bandwidth) (Fin tflops) (Fin batch) (Fin s1)
                    = Fin 0
             else positive_finite
                    (calculateThroughput JSON_parse cfg (Fin bandwidth) (Fin tflops) (Fin batch)
                       (Fin s1)))
         \<and> (if phase_time_sum m (Fin bandwidth) (Fin tflops) (Fin batch) (Fin s2) = PInf
             then calculateThroughput JSON_parse cfg (Fin bandwidth) (Fin tflops) (Fin batch) (Fin s2)
                    = Fin 0
             else positive_finite
                    (calculateThroughput JSON_parse cfg (Fin bandwidth) (Fin tflops) (Fin batch)
                       (Fin s2)))"
proof -
  let ?D = "\<lambda>s. phase_time_sum m (Fin bandwidth) (Fin tflops) (Fin batch) (Fin s)"
  have T: "calculateThroughput JSON_parse cfg (Fin bandwidth) (Fin tflops) (Fin batch) (Fin s)
             = Fin batch / ?D s" for s
    using assms(1) by (rule throughput_parsed)
  have b: "jle (Fin 1) (Fin batch)" and s1: "jle (Fin 1) (Fin s1)" and s2: "jle (Fin 1) (Fin s2)"
    and s12: "jle (Fin s1) (Fin s2)" and s22: "jle (Fin s2) (Fin s2)"
    using assms(8,10,11) by simp_all
  note c1 = valid_arch_counts [OF assms(2,3) b s1 s12]
  note c2 = valid_arch_counts [OF assms(2,3) b s2 s22]
  note l1 = phase_time_sum_lower [OF c1(1) c1(3) assms(4-7)]
  note l2 = phase_time_sum_lower [OF c2(1) c2(3) assms(4-7)]
  note mono = phase_time_sum_mono [OF c1 assms(4-7)]
  have b0: "0 \<le> batch" using assms(8) by simp
  have "jle (Fin batch / ?D s2) (Fin batch / ?D s1)"
    using b0 _ l1 mono by (rule divide_anti) simp
  then show ?thesis
    unfolding T
    using throughput_of_sum [OF l1 assms(8,9)] throughput_of_sum [OF l2 assms(8,9)]
    by auto
qed

lemma valid_gpt2_small: "valid_arch gpt2_small"
  by (simp add: valid_arch_def gpt2_small_def positive_def integral_def value_of_def)

lemma round64_upto:
  assumes "0 \<le> x" and "x \<le> 2 powi k" and "- 1074 \<le> k" and "k < 1024"
  shows "\<exists>y. round64 x = Fin y \<and> 0 \<le> y \<and> y \<le> 2 powi k"
proof -
  have "jle (round64 0) (round64 x)" using assms(1) by (intro round64_mono) simp_all
  moreover have "jle (round64 x) (round64 (2 powi k))" using assms(1,2) by (rule round64_mono)
  moreover have "round64 (2 powi k) = Fin (2 powi k)" using assms(3,4) by (rule round64_powi)
  ultimately show ?thesis by (cases "round64 x") simp_all
qed

lemma phase_time_sum_finite:
  assumes "calculateMemoryReads m seq b = Fin r" and "0 \<le> r" and "r \<le> 2 ^ 53"
    and "calculateOperations m seq b = Fin c" and "0 \<le> c" and "c \<le> 2 ^ 53"
    and "1 / 10 \<le> bw" and "bw \<le> 8192" and "1 / 10 \<le> fl" and "fl \<le> 8192"
  shows "phase_time_sum m (Fin bw) (Fin fl) b seq \<noteq> PInf"
proof -
  from hardware_scale(1) [OF assms(7,8)]
  obtain M where M: "Fin bw * Fin (10 ^ 9) = Fin M" "1 \<le> M" "M \<le> 2 powi 43" by blast
  from hardware_scale(2) [OF assms(9,10)]
  obtain F where F: "Fin fl * Fin (10 ^ 12) = Fin F" "1 \<le> F" "F \<le> 2 powi 53" by blast
  have "r / M \<le> r / 1" using assms(2) M(2) by (intro divide_left_mono) simp_all
  then have "r / M \<le> 2 powi 53" using assms(3) by simp
  moreover have "0 \<le> r / M" using assms(2) M(2) by simp
  ultimately obtain x where x: "round64 (r / M) = Fin x" "0 \<le> x" "x \<le> 2 powi 53"
    using round64_upto [of "r / M" 53] by auto
  have "c / F \<le> c / 1" using assms(5) F(2) by (intro divide_left_mono) simp_all
  then have "c / F \<le> 2 powi 53" using assms(6) by simp
  moreover have "0 \<le> c / F" using assms(5) F(2) by simp
  ultimately obtain y where y: "round64 (c / F) = Fin y" "0 \<le> y" "y \<le> 2 powi 53"
    using round64_upto [of "c / F" 53] by auto
  have "x + y \<le> 2 powi 54" using x(3) y(3) by simp
  then obtain z where z: "round64 (x + y) = Fin z"
    using round64_upto [of "x + y" 54] x(2) y(2) by auto
  have "Fin r / Fin M + Fin c / Fin F = Fin z"
    using M(2) F(2) x(1) y(1) z by simp
  then show ?thesis
    unfolding phase_time_sum_def assms(1,4) M(1) F(1) by simp
qed

lemma gpt2_reads:
  "calculateMemoryReads gpt2_small (Fin 1) (Fin 1) = Fin 494349312"
  "calculateMemoryReads gpt2_small (Fin 1024) (Fin 1) = Fin 569773056"
  by (simp_all add: calculateMemoryReads_formula calculateModelParameters_def gpt2_small_def
        ToNumber_def truthy_def isGated_parameters_def includes_str_def jpow_2)

lemma gpt2_ops:
  "calculateOperations gpt2_small (Fin 1) (Fin 1) = Fin 247137792"
  "calculateOperations gpt2_small (Fin 1024) (Fin 1) = Fin 284849664"
  by (simp_all add: calculateOperations_def gpt2_small_def ToNumber_def isGated_operations_def
        includes_str_def jpow_2)

theorem C6_positive_and_monotone_witness:
  "example_parse gpt2_config = Inr (JObject gpt2_small) \<and> valid_arch gpt2_small
   \<and> bytes_table (torch_dtype gpt2_small) \<noteq> Inherited
   \<and> positive_finite
        (calculateThroughput example_parse gpt2_config (Fin 1792) (Fin 209) (Fin 1) (Fin 1))
   \<and> positive_finite
        (calculateThroughput example_parse gpt2_config (Fin 1792) (Fin 209) (Fin 1) (Fin 1024))
   \<and> jle (calculateThroughput example_parse gpt2_config (Fin 1792) (Fin 209) (Fin 1) (Fin 1024))
          (calculateThroughput example_parse gpt2_config (Fin 1792) (Fin 209) (Fin 1) (Fin 1))"
proof -
  have p: "example_parse gpt2_config = Inr (JObject gpt2_small)"
    by (simp add: example_parse_def)
  have b: "bytes_table (torch_dtype gpt2_small) \<noteq> Inherited"
    by (simp add: bytes_table_def gpt2_small_def Object_prototype_keys_def)
  have 1: "phase_time_sum gpt2_small (Fin 1792) (Fin 209) (Fin 1) (Fin 1) \<noteq> PInf"
    by (rule phase_time_sum_finite [OF gpt2_reads(1) _ _ gpt2_ops(1)]) simp_all
  have 2: "phase_time_sum gpt2_small (Fin 1792) (Fin 209) (Fin 1) (Fin 1024) \<noteq> PInf"
    by (rule phase_time_sum_finite [OF gpt2_reads(2) _ _ gpt2_ops(2)]) simp_all
  show ?thesis
    using C6_positive_and_monotone
            [of example_parse gpt2_config gpt2_small 1792 209 1 1 1024] p valid_gpt2_small b 1 2
    by simp
qed

lemma params_PInf_square:
  assumes "jle (Fin 1) (ToNumber (hidden_size m))"
    and "jle (Fin 1) (ToNumber (num_hidden_layers m))"
    and "jle (Fin 1) (ToNumber (intermediate_size m))"
    and "jle (Fin 1) (ToNumber (vocab_size m))"
    and "jle (Fin 1) (ToNumber (num_key_value_heads m))"
    and "jle (Fin 1) (ToNumber (hidden_size m) / ToNumber (num_attention_heads m))"
    and "jpow (ToNumber (hidden_size m)) 2 = PInf"
  shows "calculateModelParameters m = PInf"
proof -
  let ?h = "ToNumber (hidden_size m)"
  have c: "jle (Fin 1) (Fin 2)" by simp
  have 1: "jle (Fin 1) (Fin 2 * ?h * ToNumber (num_key_value_heads m)
                          * (?h / ToNumber (num_attention_heads m)))"
    using assms by (intro ge1_intros) simp_all
  have 3: "jle (Fin 1) ((if isGated_parameters m then Fin 3 else Fin 2) * ?h
                          * ToNumber (intermediate_size m))"
    using assms by (intro ge1_intros) simp_all
  have 4: "jle (Fin 1) (Fin 4 * ?h)"
    using assms by (intro ge1_intros) simp_all
  have 5: "jle (Fin 1) (ToNumber (vocab_size m) * ?h
                          * (if truthy (tie_word_embeddings m) then Fin 1 else Fin 2))"
    using assms by (intro ge1_intros) simp_all
  show ?thesis
    unfolding calculateModelParameters_def Let_def assms(7)
    by (simp only: times_PInf [OF c] plus_PInf [OF 1] plus_PInf [OF 3] plus_PInf [OF 4]
          times_PInf [OF assms(2)] plus_PInf [OF 5])
qed

lemma valid_huge_hidden: "valid_arch huge_hidden"
  by (simp add: valid_arch_def huge_hidden_def positive_def integral_def value_of_def)

lemma huge_hidden_square: "jpow (ToNumber (hidden_size huge_hidden)) 2 = PInf"
proof -
  have "(2::rat) ^ 1024 \<le> 2 ^ 1200" by (rule power_increasing) simp_all
  also have "(2::rat) ^ 1200 = 2 ^ 600 * 2 ^ 600" by (simp only: power_add [symmetric]) simp
  finally have "round64 (2 ^ 600 * 2 ^ 600) = PInf"
    unfolding huge_def [symmetric] by (rule round64_overflow)
  then show ?thesis
    unfolding jpow_2 huge_hidden_def ToNumber_def by (simp only: arch.simps option.case times_jsnum.simps)
qed

lemma throughput_huge_hidden:
  "calculateThroughput example_parse huge_hidden_config (Fin 1792) (Fin 209) (Fin 1) (Fin 1) = Fin 0"
proof -
  have p: "example_parse huge_hidden_config = Inr (JObject huge_hidden)"
    by (simp add: example_parse_def gpt2_config_def headless_config_def zero_heads_config_def
          inherited_tag_config_def huge_hidden_config_def)
  have b: "bytes_table (torch_dtype huge_hidden) \<noteq> Inherited"
    by (simp add: bytes_table_def huge_hidden_def Object_prototype_keys_def)
  have one: "jle (Fin 1) (Fin 1)" by simp
  note f = valid_arch_fields [OF valid_huge_hidden]
  note H = at_least_one_ToNumber [OF f(1)] and L = at_least_one_ToNumber [OF f(2)]
    and I = at_least_one_ToNumber [OF f(3)] and V = at_least_one_ToNumber [OF f(4)]
    and K = at_least_one_ToNumber [OF f(6)]
  have hs: "jle (Fin 1) (ToNumber (hidden_size huge_hidden) / ToNumber (num_attention_heads huge_hidden))"
  proof -
    have "(16::rat) \<le> 2 ^ 600"
      using power_increasing [of 4 600 "2::rat"] by simp
    then show ?thesis
      unfolding huge_hidden_def ToNumber_def
      by (simp only: arch.simps option.case) (rule divide_ge1, simp_all)
  qed
  have "calculateModelParameters huge_hidden = PInf"
    by (rule params_PInf_square [OF H L I V K hs huge_hidden_square])
  then have r: "calculateMemoryReads huge_hidden (Fin 1) (Fin 1) = PInf"
    using one one L H b by (rule reads_PInf)
  note o = valid_arch_counts(3) [OF valid_huge_hidden b one one one]
  have "jle (Fin 0) (calculateOperations huge_hidden (Fin 1) (Fin 1) / Fin 209000000000000)"
    using _ jle_0_1 [OF o] by (rule divide_nonneg) simp
  then have "phase_time_sum huge_hidden (Fin 1792) (Fin 209) (Fin 1) (Fin 1) = PInf"
    unfolding phase_time_sum_def r by (simp add: plus_PInf)
  moreover have "calculateThroughput example_parse huge_hidden_config (Fin 1792) (Fin 209) (Fin 1) (Fin 1)
          = Fin 1 / phase_time_sum huge_hidden (Fin 1792) (Fin 209) (Fin 1) (Fin 1)"
    using p by (rule throughput_parsed)
  ultimately show ?thesis
    by simp
qed

lemma reads_inherited:
  assumes "bytes_table (torch_dtype m) = Inherited"
  shows "calculateMemoryReads m seq b = NaN"
  using assms by (simp add: calculateMemoryReads_def bytes_or_default_def)

lemma throughput_inherited:
  assumes "JSON_parse cfg = Inr (JObject m)" and "bytes_table (torch_dtype m) = Inherited"
  shows "calculateThroughput JSON_parse cfg mem flops b seq = NaN"
  using assms(1) by (simp add: calculateThroughput_def try_block_def properties_def
      reads_inherited [OF assms(2)])

text \<open>
  The claim as it stands fails for valid records in general.  With a hidden size of
  \<open>2 ^ 600\<close> the square of the hidden size is infinite, so is the memory time, and the
  throughput is \<open>0\<close>, not a positive number.  With the precision tag
  \<^verbatim>\<open>"constructor"\<close> the memory traffic is NaN and so is the throughput.
\<close>

theorem C6_counterexample:
  "valid_arch huge_hidden
   \<and> example_parse huge_hidden_config = Inr (JObject huge_hidden)
   \<and> calculateThroughput example_parse huge_hidden_config (Fin 1792) (Fin 209) (Fin 1) (Fin 1)
       = Fin 0
   \<and> valid_arch (gpt2_small\<lparr>torch_dtype := Some ''constructor''\<rparr>)
   \<and> example_parse inherited_tag_config
       = Inr (JObject (gpt2_small\<lparr>torch_dtype := Some ''constructor''\<rparr>))
   \<and> calculateThroughput example_parse inherited_tag_config (Fin 1792) (Fin 209) (Fin 1) (Fin 1)
       = NaN"
proof -
  have p: "example_parse huge_hidden_config = Inr (JObject huge_hidden)"
    by (simp add: example_parse_def gpt2_config_def headless_config_def zero_heads_config_def
          inherited_tag_config_def huge_hidden_config_def)
  have q: "example_parse inherited_tag_config
             = Inr (JObject (gpt2_small\<lparr>torch_dtype := Some ''constructor''\<rparr>))"
    by (simp add: example_parse_def gpt2_config_def headless_config_def zero_heads_config_def
          inherited_tag_config_def)
  have v: "valid_arch (gpt2_small\<lparr>torch_dtype := Some ''constructor''\<rparr>)"
    using valid_gpt2_small by (simp add: valid_arch_def)
  have i: "bytes_table (torch_dtype (gpt2_small\<lparr>torch_dtype := Some ''constructor''\<rparr>)) = Inherited"
    by (simp add: bytes_table_def Object_prototype_keys_def)
  show ?thesis
    using valid_huge_hidden p throughput_huge_hidden v q
      throughput_inherited [of example_parse inherited_tag_config
        "gpt2_small\<lparr>torch_dtype := Some ''constructor''\<rparr>"] i
    by simp
qed

section \<open>Failures\<close>







section \<open>The debounced recompute\<close>

lemma tick_idle: "timers st = [] \<Longrightarrow> tick P st = st"
  by (simp add: tick_def)

lemma elapse_idle: "timers st = [] \<Longrightarrow> (tick P ^^ d) st = st"
  by (induction d) (simp_all add: tick_idle)

lemma tick_pending:
  assumes "timers st = [(i, left, v)]" and "1 < left"
  shows "tick P st = st\<lparr>timers := [(i, left - 1, v)]\<rparr>"
  using assms by (simp add: tick_def)

lemma tick_fire:
  assumes "timers st = [(i, left, v)]" and "left \<le> 1"
  shows "tick P st = setDebounced P v (st\<lparr>timers := []\<rparr>)"
  using assms by (simp add: tick_def)

lemma elapse_pending:
  assumes "timers st = [(i, left, v)]" and "d < left"
  shows "(tick P ^^ d) st = st\<lparr>timers := [(i, left - d, v)]\<rparr>"
  using assms
proof (induction d)
  case 0
  then show ?case by simp
next
  case (Suc d)
  then have "(tick P ^^ d) st = st\<lparr>timers := [(i, left - d, v)]\<rparr>"
    by simp
  moreover have "tick P (st\<lparr>timers := [(i, left - d, v)]\<rparr>)
                   = st\<lparr>timers := [(i, left - d, v)]\<rparr>\<lparr>timers := [(i, left - d - 1, v)]\<rparr>"
    using Suc.prems(2) by (intro tick_pending) simp_all
  ultimately show ?case by simp
qed

lemma timers_setDebounced [simp]: "timers (setDebounced P v st) = timers st"
  by (simp add: setDebounced_def)

lemma elapse_fire:
  assumes "timers st = [(i, left, v)]" and "0 < left" and "left \<le> d"
  shows "(tick P ^^ d) st = setDebounced P v (st\<lparr>timers := []\<rparr>)"
proof -
  from assms(2) obtain n where n: "left = Suc n"
    by (cases left) simp_all
  from assms(3) obtain k where k: "d = k + Suc n"
    unfolding n by (metis add.commute le_Suc_ex)
  have "(tick P ^^ n) st = st\<lparr>timers := [(i, left - n, v)]\<rparr>"
    using assms(1) by (rule elapse_pending) (simp add: n)
  then have "(tick P ^^ n) st = st\<lparr>timers := [(i, 1, v)]\<rparr>"
    by (simp add: n)
  then have "(tick P ^^ Suc n) st = tick P (st\<lparr>timers := [(i, 1, v)]\<rparr>)"
    by simp
  also have "\<dots> = setDebounced P v (st\<lparr>timers := [(i, 1, v)]\<rparr>\<lparr>timers := []\<rparr>)"
    by (rule tick_fire [where i = i and left = 1]) simp_all
  finally have f: "(tick P ^^ Suc n) st = setDebounced P v (st\<lparr>timers := []\<rparr>)"
    by simp
  have "(tick P ^^ d) st = (tick P ^^ k) ((tick P ^^ Suc n) st)"
    unfolding k by (simp only: funpow_add o_apply)
  also have "\<dots> = setDebounced P v (st\<lparr>timers := []\<rparr>)"
    unfolding f by (rule elapse_idle) simp
  finally show ?thesis .
qed

lemma setConfig_cancels:
  assumes "one_pending st" and "v \<noteq> config st"
  shows "setConfig v st =
           st\<lparr>config := v, timers := [(next_id st, delay_ms, v)],
              effect_id := Some (next_id st), next_id := Suc (next_id st)\<rparr>"
proof -
  have "filter (\<lambda>(i, left, w). Some i \<noteq> effect_id st) (timers st) = []"
  proof (cases "timers st")
    case Nil
    then show ?thesis by simp
  next
    case (Cons t ts)
    with assms(1) obtain i left w where "timers st = [(i, left, w)]" and "effect_id st = Some i"
      by (cases t; cases ts) (simp_all add: one_pending_def)
    then show ?thesis by simp
  qed
  with assms(2) show ?thesis
    by (simp add: setConfig_def)
qed

lemma burst_pending:
  assumes "v1 \<noteq> config st" and "one_pending st" and "changes v1 es" and "rapid es"
  shows "run P st (Edit v1 # burst es) =
           st\<lparr>config := last (v1 # map snd es),
              timers := [(next_id st + length es, delay_ms, last (v1 # map snd es))],
              effect_id := Some (next_id st + length es),
              next_id := Suc (next_id st + length es)\<rparr>"
  using assms
proof (induction es arbitrary: st v1)
  case Nil
  then show ?case
    by (simp add: run_def setConfig_cancels)
next
  case (Cons e es)
  obtain d v where e: "e = (d, v)" by (cases e)
  let ?s1 = "setConfig v1 st"
  let ?s2 = "(tick P ^^ d) ?s1"
  have s1: "?s1 = st\<lparr>config := v1, timers := [(next_id st, delay_ms, v1)],
                     effect_id := Some (next_id st), next_id := Suc (next_id st)\<rparr>"
    using Cons.prems(2,1) by (rule setConfig_cancels)
  have d: "d < delay_ms"
    using Cons.prems(4) by (simp add: rapid_def e)
  have s2: "?s2 = st\<lparr>config := v1, timers := [(next_id st, delay_ms - d, v1)],
                     effect_id := Some (next_id st), next_id := Suc (next_id st)\<rparr>"
    unfolding s1 using d by (subst elapse_pending [where i = "next_id st" and left = delay_ms and v = v1]) simp_all
  have p2: "one_pending ?s2"
    unfolding s2 using d by (simp add: one_pending_def)
  have c2: "v \<noteq> config ?s2"
    unfolding s2 using Cons.prems(3) by (simp add: e)
  have "run P st (Edit v1 # burst (e # es)) = run P ?s2 (Edit v # burst es)"
    by (simp add: run_def e)
  also have "\<dots> = ?s2\<lparr>config := last (v # map snd es),
                        timers := [(next_id ?s2 + length es, delay_ms, last (v # map snd es))],
                        effect_id := Some (next_id ?s2 + length es),
                        next_id := Suc (next_id ?s2 + length es)\<rparr>"
    using c2 p2 Cons.prems(3,4) by (intro Cons.IH) (simp_all add: e rapid_def)
  finally show ?case
    unfolding s2 by (simp add: e)
qed


lemma run_append: "run P st (xs @ ys) = run P (run P st xs) ys"
  by (simp add: run_def)

lemma burst_then_wait:
  assumes "v1 \<noteq> config st" and "one_pending st" and "changes v1 es" and "rapid es"
    and "delay_ms \<le> w"
  shows "run P st (Edit v1 # burst es @ [Elapse w]) =
           setDebounced P (last (v1 # map snd es))
             (st\<lparr>config := last (v1 # map snd es),
                 effect_id := Some (next_id st + length es),
                 next_id := Suc (next_id st + length es), timers := []\<rparr>)"
proof -
  let ?f = "last (v1 # map snd es)"
  let ?p = "st\<lparr>config := ?f, timers := [(next_id st + length es, delay_ms, ?f)],
               effect_id := Some (next_id st + length es),
               next_id := Suc (next_id st + length es)\<rparr>"
  have "run P st (Edit v1 # burst es @ [Elapse w]) = run P (run P st (Edit v1 # burst es)) [Elapse w]"
    using run_append [of P st "Edit v1 # burst es" "[Elapse w]"] by simp
  also have "\<dots> = (tick P ^^ w) ?p"
    unfolding burst_pending [OF assms(1-4)] by (simp add: run_def)
  also have "\<dots> = setDebounced P ?f (?p\<lparr>timers := []\<rparr>)"
    using assms(5)
    by (intro elapse_fire [where i = "next_id st + length es" and left = delay_ms])
       (simp_all add: delay_ms_def)
  finally show ?thesis
    by simp
qed

lemma one_pending_step:
  assumes "one_pending st"
  shows "one_pending (step P st ev)"
proof (cases ev)
  case (Edit v)
  show ?thesis
  proof (cases "v = config st")
    case True
    with assms Edit show ?thesis by (simp add: setConfig_def)
  next
    case False
    with assms Edit show ?thesis
      by (simp add: setConfig_cancels one_pending_def delay_ms_def)
  qed
next
  case (Elapse d)
  show ?thesis
  proof (cases "timers st")
    case Nil
    with assms Elapse show ?thesis by (simp add: elapse_idle)
  next
    case (Cons t ts)
    with assms obtain i left v where t: "timers st = [(i, left, v)]"
      and e: "effect_id st = Some i" and l: "0 < left"
      by (cases t; cases ts) (simp_all add: one_pending_def)
    show ?thesis
    proof (cases "d < left")
      case True
      then show ?thesis
        using Elapse e by (simp add: elapse_pending [OF t] one_pending_def)
    next
      case False
      then have "left \<le> d" by simp
      then show ?thesis
        using Elapse by (simp add: elapse_fire [OF t l] one_pending_def)
    qed
  qed
qed

lemma one_pending_run: "one_pending st \<Longrightarrow> one_pending (run P st evs)"
proof (induction evs arbitrary: st)
  case Nil
  then show ?case by (simp add: run_def)
next
  case (Cons ev evs)
  have "run P st (ev # evs) = run P (step P st ev) evs"
    by (simp add: run_def)
  with Cons one_pending_step [of st P ev] show ?case
    by simp
qed

lemma one_pending_mounted: "one_pending mounted"
  by (simp add: one_pending_def mounted_def delay_ms_def)

lemma settled_reached: "run example_parse mounted [Edit gpt2_config, Elapse 200] = settled"
proof -
  have ne: "gpt2_config \<noteq> config mounted"
    by (simp add: mounted_def gpt2_config_def)
  show ?thesis
    using burst_then_wait [OF ne one_pending_mounted, of "[]" 200 example_parse]
    by (simp add: rapid_def delay_ms_def setDebounced_def mounted_def settled_def gpt2_config_def)
qed

text \<open>
  C9, as amended.  Take a burst of edits of the configuration text, every one a change of
  the text and every one less than 200 ms after the one before, followed by 200 ms or
  more without an edit.  Every edit cancels the pending timeout and sets a new one.  When
  the burst is over, \<^verbatim>\<open>dCfg\<close> is the final text and no timeout is pending.  The curve
  effect has run at most once, with the final text and with no intermediate one: once when
  the final text differs from the value \<^verbatim>\<open>dCfg\<close> had before the burst, not at all when
  it equals that value.
\<close>

theorem C9_debounced_recompute:
  fixes JSON_parse st v1 es w
  defines "final \<equiv> last (v1 # map snd es)"
    and "st' \<equiv> run JSON_parse st (Edit v1 # burst es @ [Elapse w])"
  assumes "one_pending st" and "v1 \<noteq> config st" and "changes v1 es" and "rapid es"
    and "delay_ms \<le> w"
  shows "config st' = final \<and> debounced st' = final \<and> timers st' = []
         \<and> effect_runs st' = effect_runs st @ (if final = debounced st then [] else [final])
         \<and> throughputData st' =
             (if final = debounced st then throughputData st
              else curve_effect JSON_parse final (memoryBandwidth st) (computePower st)
                     (batchSize st) (maxSeqLen st) (throughputData st))
         \<and> timers (step JSON_parse st (Edit v1)) = [(next_id st, delay_ms, v1)]"
proof -
  have "st' = setDebounced JSON_parse final
                (st\<lparr>config := final,
                    effect_id := Some (next_id st + length es),
                    next_id := Suc (next_id st + length es), timers := []\<rparr>)"
    unfolding st'_def final_def using assms(4,3,5,6,7) by (rule burst_then_wait)
  moreover have "timers (step JSON_parse st (Edit v1)) = [(next_id st, delay_ms, v1)]"
    using assms(3,4) by (simp add: setConfig_cancels)
  ultimately show ?thesis
    by (simp add: setDebounced_def)
qed

theorem C9_debounced_recompute_witness:
  "one_pending mounted \<and> ''{'' \<noteq> config mounted \<and> changes ''{'' [(50, ''{}'')]
   \<and> rapid [(50, ''{}'')] \<and> delay_ms \<le> 200
   \<and> debounced (run example_parse mounted [Edit ''{'', Elapse 50, Edit ''{}'', Elapse 200]) = ''{}''
   \<and> effect_runs (run example_parse mounted [Edit ''{'', Elapse 50, Edit ''{}'', Elapse 200])
       = [[], ''{}'']"
  using C9_debounced_recompute [of mounted "''{''" "[(50, ''{}'')]" 200 example_parse]
    one_pending_mounted
  by (simp add: rapid_def delay_ms_def mounted_def)

text \<open>
  The claim as it stands fails when the burst ends on the text that the curve was last
  computed from: a character typed after the GPT-2 configuration and deleted 50 ms later
  leads to no run of the curve effect at all.
\<close>

theorem C9_counterexample:
  "run example_parse mounted [Edit gpt2_config, Elapse 200] = settled
   \<and> effect_runs settled = [[], gpt2_config]
   \<and> effect_runs (run example_parse settled
         [Edit (gpt2_config @ '' ''), Elapse 50, Edit gpt2_config, Elapse 200])
       = [[], gpt2_config]"
proof -
  have p: "one_pending settled"
    by (simp add: one_pending_def settled_def)
  have ne: "gpt2_config @ '' '' \<noteq> config settled"
    by (simp add: settled_def)
  have "effect_runs (run example_parse settled
         [Edit (gpt2_config @ '' ''), Elapse 50, Edit gpt2_config, Elapse 200]) = effect_runs settled"
    using burst_then_wait [OF ne p, of "[(50, gpt2_config)]" 200 example_parse]
    by (simp add: rapid_def delay_ms_def setDebounced_def) (simp add: settled_def)
  then show ?thesis
    by (simp add: settled_reached) (simp add: settled_def)
qed

end
